theory Spec2Isabelle
  imports Main
begin

section \<open>Values\<close>

text \<open>
  The serializer of \<^verbatim>\<open>speckle/serialization/base_object_serializer.py\<close> turns a tree of
  Python values into serializable dictionaries and back.  Two types of values occur.

  \<^item> \<open>json\<close>: what \<^verbatim>\<open>json.dumps\<close> accepts and \<^verbatim>\<open>json.loads\<close> returns: the records the
    serializer builds.  A dictionary is an association list in insertion order.  A float
    is represented by the text \<^verbatim>\<open>float.__repr__\<close> gives it, which is all the code looks at.
  \<^item> \<open>pyval\<close>: the values a \<^verbatim>\<open>Base\<close> object can hold.  \<open>PBase\<close> is a \<^verbatim>\<open>Base\<close> object;
    \<open>POpaque\<close> is any other object, given by its truth value, the result of its
    \<^verbatim>\<open>dict()\<close> method when it has one, and its \<^verbatim>\<open>str()\<close>.
\<close>

datatype json =
    JNull
  | JBool bool
  | JInt int
  | JFloat string
  | JStr string
  | JList "json list"
  | JDict "(string \<times> json) list"

text \<open>
  Modelled from the spec: the class \<^verbatim>\<open>Base\<close> (\<^verbatim>\<open>speckle.objects.base\<close>) is not part of the
  sources.  By the spec's object boundary it enumerates its property names in a stable order,
  gives indexed get and set of a named property, and has a settable hint field for the
  total count of closure entries.  \<open>PBase hint members\<close> holds the hint and the properties in
  enumeration order.  No truth value is declared for it, so an object is truthy.
\<close>

datatype pyval =
    PNone
  | PBool bool
  | PInt int
  | PFloat string
  | PStr string
  | PList "pyval list"
  | PTuple "pyval list"
  | PSet "pyval list"
  | PDict "(string \<times> pyval) list"
  | PBase "nat option" "(string \<times> pyval) list"
  | POpaque bool "json option" string

text \<open>\<^verbatim>\<open>PRIMITIVES = (int, float, str, bool)\<close>\<close>

fun is_primitive :: "pyval \<Rightarrow> bool" where
  "is_primitive (PBool b) = True"
| "is_primitive (PInt i) = True"
| "is_primitive (PFloat r) = True"
| "is_primitive (PStr s) = True"
| "is_primitive v = False"

fun json_is_primitive :: "json \<Rightarrow> bool" where
  "json_is_primitive (JBool b) = True"
| "json_is_primitive (JInt i) = True"
| "json_is_primitive (JFloat r) = True"
| "json_is_primitive (JStr s) = True"
| "json_is_primitive v = False"

text \<open>The truth value Python gives a value: \<^verbatim>\<open>not value\<close> is \<open>falsy value\<close>.\<close>

fun falsy :: "pyval \<Rightarrow> bool" where
  "falsy PNone = True"
| "falsy (PBool b) = (\<not> b)"
| "falsy (PInt i) = (i = 0)"
| "falsy (PFloat r) = (r = ''0.0'' \<or> r = ''-0.0'')"
| "falsy (PStr s) = (s = [])"
| "falsy (PList xs) = (xs = [])"
| "falsy (PTuple xs) = (xs = [])"
| "falsy (PSet xs) = (xs = [])"
| "falsy (PDict d) = (d = [])"
| "falsy (PBase h ms) = False"
| "falsy (POpaque t d s) = (\<not> t)"

fun json_falsy :: "json \<Rightarrow> bool" where
  "json_falsy JNull = True"
| "json_falsy (JBool b) = (\<not> b)"
| "json_falsy (JInt i) = (i = 0)"
| "json_falsy (JFloat r) = (r = ''0.0'' \<or> r = ''-0.0'')"
| "json_falsy (JStr s) = (s = [])"
| "json_falsy (JList xs) = (xs = [])"
| "json_falsy (JDict d) = (d = [])"

text \<open>A primitive is the same value on both sides.\<close>

fun json_of_prim :: "pyval \<Rightarrow> json" where
  "json_of_prim (PBool b) = JBool b"
| "json_of_prim (PInt i) = JInt i"
| "json_of_prim (PFloat r) = JFloat r"
| "json_of_prim (PStr s) = JStr s"
| "json_of_prim v = JNull"

text \<open>A serializable value, seen as the Python value it is.\<close>

fun py_of_json :: "json \<Rightarrow> pyval"
  and py_of_jsons :: "json list \<Rightarrow> pyval list"
  and py_of_items :: "(string \<times> json) list \<Rightarrow> (string \<times> pyval) list" where
  "py_of_json JNull = PNone"
| "py_of_json (JBool b) = PBool b"
| "py_of_json (JInt i) = PInt i"
| "py_of_json (JFloat r) = PFloat r"
| "py_of_json (JStr s) = PStr s"
| "py_of_json (JList xs) = PList (py_of_jsons xs)"
| "py_of_json (JDict d) = PDict (py_of_items d)"
| "py_of_jsons [] = []"
| "py_of_jsons (x # xs) = py_of_json x # py_of_jsons xs"
| "py_of_items [] = []"
| "py_of_items ((k, v) # d) = (k, py_of_json v) # py_of_items d"

section \<open>Dictionaries\<close>

text \<open>
  A Python \<^verbatim>\<open>dict\<close> keeps insertion order: \<^verbatim>\<open>d[k] = v\<close> replaces the value of a key that
  is there, at its place, and appends a new key.
\<close>

fun dict_set :: "'k \<Rightarrow> 'v \<Rightarrow> ('k \<times> 'v) list \<Rightarrow> ('k \<times> 'v) list" where
  "dict_set k v [] = [(k, v)]"
| "dict_set k v ((k', v') # d) = (if k' = k then (k, v) # d else (k', v') # dict_set k v d)"

definition dict_has :: "('k \<times> 'v) list \<Rightarrow> 'k \<Rightarrow> bool" where
  "dict_has d k = (map_of d k \<noteq> None)"

definition dict_pop :: "'k \<Rightarrow> ('k \<times> 'v) list \<Rightarrow> ('k \<times> 'v) list" where
  "dict_pop k d = filter (\<lambda>p. fst p \<noteq> k) d"

definition startswith :: "string \<Rightarrow> string \<Rightarrow> bool" where
  "startswith s p = (take (length p) s = p)"

section \<open>The canonical encoding and the hash\<close>

text \<open>
  \<^verbatim>\<open>json.dumps\<close> with its default settings: separators \<^verbatim>\<open>", "\<close> and \<^verbatim>\<open>": "\<close>, keys in
  insertion order, every character outside the range from space to \<^verbatim>\<open>~\<close> escaped, and the
  floats that are not numbers written \<^verbatim>\<open>NaN\<close>, \<^verbatim>\<open>Infinity\<close> and \<^verbatim>\<open>-Infinity\<close>.  A character of
  a string is a code point below 256.
\<close>

definition hex_digit :: "nat \<Rightarrow> char" where
  "hex_digit n = ''0123456789abcdef'' ! (n mod 16)"

definition escape_char :: "char \<Rightarrow> string" where
  "escape_char c =
     (if c = CHR 0x22 then [CHR 0x5C, CHR 0x22]
      else if c = CHR 0x5C then [CHR 0x5C, CHR 0x5C]
      else if c = CHR 0x0A then [CHR 0x5C, CHR ''n'']
      else if c = CHR 0x0D then [CHR 0x5C, CHR ''r'']
      else if c = CHR 0x09 then [CHR 0x5C, CHR ''t'']
      else if c = CHR 0x08 then [CHR 0x5C, CHR ''b'']
      else if c = CHR 0x0C then [CHR 0x5C, CHR ''f'']
      else if (of_char c :: nat) < 32 \<or> 126 < (of_char c :: nat)
        then [CHR 0x5C, CHR ''u'', CHR ''0'', CHR ''0'',
              hex_digit (of_char c div 16), hex_digit (of_char c)]
      else [c])"

definition quote :: "string \<Rightarrow> string" where
  "quote s = [CHR 0x22] @ concat (map escape_char s) @ [CHR 0x22]"

fun dec_nat :: "nat \<Rightarrow> string" where
  "dec_nat n = (if n < 10 then [hex_digit n] else dec_nat (n div 10) @ [hex_digit (n mod 10)])"

declare dec_nat.simps [simp del]

definition dec_int :: "int \<Rightarrow> string" where
  "dec_int i = (if i < 0 then CHR ''-'' # dec_nat (nat (- i)) else dec_nat (nat i))"

fun json_dumps :: "json \<Rightarrow> string"
  and dumps_list :: "json list \<Rightarrow> string"
  and dumps_items :: "(string \<times> json) list \<Rightarrow> string" where
  "json_dumps JNull = ''null''"
| "json_dumps (JBool b) = (if b then ''true'' else ''false'')"
| "json_dumps (JInt i) = dec_int i"
| "json_dumps (JFloat r) =
     (if r = ''nan'' then ''NaN''
      else if r = ''inf'' then ''Infinity''
      else if r = ''-inf'' then ''-Infinity''
      else r)"
| "json_dumps (JStr s) = quote s"
| "json_dumps (JList xs) = ''['' @ dumps_list xs @ '']''"
| "json_dumps (JDict d) = ''{'' @ dumps_items d @ ''}''"
| "dumps_list [] = []"
| "dumps_list [x] = json_dumps x"
| "dumps_list (x # y # xs) = json_dumps x @ '', '' @ dumps_list (y # xs)"
| "dumps_items [] = []"
| "dumps_items [(k, v)] = quote k @ '': '' @ json_dumps v"
| "dumps_items ((k, v) # p # d) = quote k @ '': '' @ json_dumps v @ '', '' @ dumps_items (p # d)"

text \<open>
  The library functions the serializer calls and that are not its own code:
  \<^verbatim>\<open>hashlib.sha256(text.encode()).hexdigest()\<close>, the \<open>n\<close>-th value \<^verbatim>\<open>uuid4().hex\<close> returns
  in this process, and \<^verbatim>\<open>json.loads\<close> (\<open>None\<close> when it raises).
\<close>

record pylib =
  sha256_hexdigest :: "string \<Rightarrow> string"
  uuid4_hex :: "nat \<Rightarrow> string"
  json_loads :: "string \<Rightarrow> json option"

text \<open>\<^verbatim>\<open>hash_obj\<close>: the first 32 hexadecimal characters of the digest of the encoding.\<close>

definition hash_obj :: "pylib \<Rightarrow> json \<Rightarrow> string" where
  "hash_obj L obj = take 32 (sha256_hexdigest L (json_dumps obj))"

section \<open>The serializer\<close>

text \<open>
  Modelled from the spec: \<^verbatim>\<open>AbstractTransport\<close> is not part of the sources.  A write
  transport is the list of the \<^verbatim>\<open>save_object(id, serialized_object)\<close> calls it has received,
  oldest first.  A read transport has a name and answers \<^verbatim>\<open>get_object(id)\<close> with a text or
  with nothing.
\<close>

type_synonym write_transport = "(string \<times> string) list"

record read_transport =
  name :: string
  get_object :: "string \<Rightarrow> string option"

type_synonym closure = "(string \<times> int) list"

text \<open>
  The fields of \<^verbatim>\<open>BaseObjectSerializer\<close>.  \<open>uuid_count\<close> is the number of \<^verbatim>\<open>uuid4()\<close> calls
  made so far, the index of the next value of \<open>uuid4_hex\<close>.
\<close>

record serializer =
  write_transports :: "write_transport list"
  read_transport :: "read_transport option"
  detach_lineage :: "bool list"
  lineage :: "string list"
  family_tree :: "(string \<times> closure) list"
  closure_table :: "(string \<times> closure) list"
  uuid_count :: nat

text \<open>
  The body of the loop of \<^verbatim>\<open>detach_helper\<close> for one \<open>parent\<close> of the lineage, with
  \<open>depth\<close> the value of \<^verbatim>\<open>len(self.detach_lineage)\<close>.
\<close>

definition track :: "int \<Rightarrow> string \<Rightarrow> (string \<times> closure) list \<Rightarrow> string \<Rightarrow> (string \<times> closure) list" where
  "track depth ref_hash ft parent =
     (let ft1 = (if dict_has ft parent then ft else dict_set parent [] ft);
          refs = (case map_of ft1 parent of None \<Rightarrow> [] | Some r \<Rightarrow> r)
      in case map_of refs ref_hash of
           None \<Rightarrow> dict_set parent (dict_set ref_hash depth refs) ft1
         | Some d \<Rightarrow> if d > depth then dict_set parent (dict_set ref_hash depth refs) ft1 else ft1)"

definition detach_helper :: "serializer \<Rightarrow> string \<Rightarrow> json \<times> serializer" where
  "detach_helper s ref_hash =
     (JDict [(''referencedId'', JStr ref_hash), (''speckleType'', JStr ''reference'')],
      s\<lparr>family_tree :=
          foldl (track (int (length (detach_lineage s))) ref_hash) (family_tree s) (lineage s)\<rparr>)"

text \<open>
  \<^verbatim>\<open>child_obj["id"]\<close>, for the dictionary \<^verbatim>\<open>traverse_base\<close> has built: its \<^verbatim>\<open>id\<close> is
  the hash, a string (lemma \<open>traverse_value_base_id\<close> below), so the other cases are not
  reached.
\<close>

fun id_of :: "json \<Rightarrow> string" where
  "id_of (JDict d) = (case map_of d ''id'' of Some (JStr h) \<Rightarrow> h | _ \<Rightarrow> [])"
| "id_of v = []"

definition closure_json :: "closure \<Rightarrow> json" where
  "closure_json c = JDict (map (\<lambda>(ref, depth). (ref, JInt depth)) c)"

definition save_object :: "string \<Rightarrow> string \<Rightarrow> write_transport \<Rightarrow> write_transport" where
  "save_object h text t = t @ [(h, text)]"

text \<open>
  \<^verbatim>\<open>traverse_base\<close> before its loop: the lineage of detach flags is started when it is
  empty, and a fresh identifier is appended to the lineage.
\<close>

definition enter_base :: "pylib \<Rightarrow> serializer \<Rightarrow> serializer" where
  "enter_base L s =
     (let s1 = (if detach_lineage s = [] then s\<lparr>detach_lineage := [True]\<rparr> else s)
      in s1\<lparr>lineage := lineage s1 @ [uuid4_hex L (uuid_count s1)],
             uuid_count := Suc (uuid_count s1)\<rparr>)"

text \<open>
  \<^verbatim>\<open>traverse_base\<close> after its loop, from \<^verbatim>\<open>hash = hash_obj(object_builder)\<close> to the
  \<^verbatim>\<open>return\<close>.  The two lineages are not empty there (lemmas \<open>traverse_props_lineage\<close> and
  \<open>traverse_props_detach_lineage\<close> below), so \<^verbatim>\<open>pop()\<close> and \<^verbatim>\<open>[-1]\<close> do not raise.
\<close>

definition leave_base ::
    "pylib \<Rightarrow> serializer \<Rightarrow> (string \<times> json) list \<Rightarrow> (string \<times> (string \<times> json) list) \<times> serializer" where
  "leave_base L s3 object_builder =
     (let hash = hash_obj L (JDict object_builder);
          object_builder1 = dict_set ''id'' (JStr hash) object_builder;
          detached = last (detach_lineage s3);
          s4 = s3\<lparr>detach_lineage := butlast (detach_lineage s3)\<rparr>;
          (object_builder2, s5) =
            (case map_of (family_tree s4) (last (lineage s4)) of
               None \<Rightarrow> (object_builder1, s4)
             | Some refs \<Rightarrow>
                 let closure = map (\<lambda>(ref, depth).
                                 (ref, depth - int (length (detach_lineage s4)))) refs
                 in (dict_set ''__closure'' (closure_json closure) object_builder1,
                     s4\<lparr>closure_table := dict_set hash closure (closure_table s4)\<rparr>));
          s6 = (if detached
                then s5\<lparr>write_transports :=
                         map (save_object hash (json_dumps (JDict object_builder2)))
                           (write_transports s5)\<rparr>
                else s5)
      in ((hash, object_builder2), s6\<lparr>lineage := butlast (lineage s6)\<rparr>))"

fun is_base :: "pyval \<Rightarrow> bool" where
  "is_base (PBase hint members) = True"
| "is_base v = False"

text \<open>The number of constructors of a value: the traversal descends along it.\<close>

fun weight :: "pyval \<Rightarrow> nat"
  and weights :: "pyval list \<Rightarrow> nat"
  and weight_items :: "(string \<times> pyval) list \<Rightarrow> nat" where
  "weight (PList xs) = Suc (weights xs)"
| "weight (PTuple xs) = Suc (weights xs)"
| "weight (PSet xs) = Suc (weights xs)"
| "weight (PDict d) = Suc (weight_items d)"
| "weight (PBase hint members) = Suc (weight_items members)"
| "weight v = 0"
| "weights [] = 0"
| "weights (x # xs) = Suc (weight x + weights xs)"
| "weight_items [] = 0"
| "weight_items ((k, v) # d) = Suc (weight v + weight_items d)"

text \<open>
  The traversal.  Every function takes the serializer and returns it as the call leaves it.
  \<^verbatim>\<open>traverse_value\<close> assigns into a dictionary it is given (\<^verbatim>\<open>obj[k] = ...\<close>), so next to
  its result each function returns its argument as the call leaves it.

  \<^item> \<open>traverse_base L s members\<close> is \<^verbatim>\<open>traverse_base\<close> on an object with these members and
    returns the hash, the dictionary built, and the members afterwards.
  \<^item> \<open>traverse_props L s object_builder props\<close> is its \<^verbatim>\<open>while props\<close> loop and
    \<open>traverse_prop\<close> one round of it; a member is listed once, so \<^verbatim>\<open>obj[prop]\<close> is the
    value listed with the name.
  \<^item> \<open>traverse_value L s obj detach\<close> is \<^verbatim>\<open>traverse_value\<close>; \<open>traverse_list\<close> is its list
    comprehension and \<open>traverse_items\<close> its loop over \<^verbatim>\<open>obj.items()\<close>, which returns the
    entries of the dictionary as serializable values and as the Python values they are.
\<close>

function (sequential) traverse_base ::
    "pylib \<Rightarrow> serializer \<Rightarrow> (string \<times> pyval) list \<Rightarrow>
       (string \<times> (string \<times> json) list) \<times> (string \<times> pyval) list \<times> serializer"
  and traverse_props ::
    "pylib \<Rightarrow> serializer \<Rightarrow> (string \<times> json) list \<Rightarrow> (string \<times> pyval) list \<Rightarrow>
       (string \<times> json) list \<times> (string \<times> pyval) list \<times> serializer"
  and traverse_prop ::
    "pylib \<Rightarrow> serializer \<Rightarrow> (string \<times> json) list \<Rightarrow> string \<Rightarrow> pyval \<Rightarrow>
       (string \<times> json) list \<times> pyval \<times> serializer"
  and traverse_value ::
    "pylib \<Rightarrow> serializer \<Rightarrow> pyval \<Rightarrow> bool \<Rightarrow> json \<times> pyval \<times> serializer"
  and traverse_list ::
    "pylib \<Rightarrow> serializer \<Rightarrow> pyval list \<Rightarrow> json list \<times> pyval list \<times> serializer"
  and traverse_items ::
    "pylib \<Rightarrow> serializer \<Rightarrow> (string \<times> pyval) list \<Rightarrow>
       (string \<times> json) list \<times> (string \<times> pyval) list \<times> serializer" where
  "traverse_base L s members =
     (case traverse_props L (enter_base L s) [(''id'', JStr [])] members of
        (object_builder, members', s3) \<Rightarrow>
          (case leave_base L s3 object_builder of (result, s7) \<Rightarrow> (result, members', s7)))"
| "traverse_props L s object_builder [] = (object_builder, [], s)"
| "traverse_props L s object_builder ((prop, value) # props) =
     (case traverse_prop L s object_builder prop value of
        (object_builder1, value', s1) \<Rightarrow>
          (case traverse_props L s1 object_builder1 props of
             (object_builder2, props', s2) \<Rightarrow> (object_builder2, (prop, value') # props', s2)))"
| "traverse_prop L s object_builder prop value =
     (if falsy value \<or> startswith prop ''__'' then (object_builder, value, s)
      else if is_primitive value then (dict_set prop (json_of_prim value) object_builder, value, s)
      else if is_base value then
        (case traverse_value L s value (startswith prop ''@'') of
           (child_obj, value', s1) \<Rightarrow>
             if startswith prop ''@'' then
               (case detach_helper s1 (id_of child_obj) of
                  (reference, s2) \<Rightarrow> (dict_set prop reference object_builder, value', s2))
             else (dict_set prop child_obj object_builder, value', s1))
      else
        (case traverse_value L s value False of
           (child_obj, value', s1) \<Rightarrow> (dict_set prop child_obj object_builder, value', s1)))"
| "traverse_value L s (PBool b) detach = (JBool b, PBool b, s)"
| "traverse_value L s (PInt i) detach = (JInt i, PInt i, s)"
| "traverse_value L s (PFloat r) detach = (JFloat r, PFloat r, s)"
| "traverse_value L s (PStr t) detach = (JStr t, PStr t, s)"
| "traverse_value L s (PList xs) detach =
     (case traverse_list L s xs of (rs, xs', s') \<Rightarrow> (JList rs, PList xs', s'))"
| "traverse_value L s (PTuple xs) detach =
     (case traverse_list L s xs of (rs, xs', s') \<Rightarrow> (JList rs, PTuple xs', s'))"
| "traverse_value L s (PSet xs) detach =
     (case traverse_list L s xs of (rs, xs', s') \<Rightarrow> (JList rs, PSet xs', s'))"
| "traverse_value L s (PDict d) detach =
     (case traverse_items L s d of (rd, d', s') \<Rightarrow> (JDict rd, PDict d', s'))"
| "traverse_value L s (PBase hint members) detach =
     (case traverse_base L (s\<lparr>detach_lineage := detach_lineage s @ [detach]\<rparr>) members of
        ((hash, base_obj), members', s') \<Rightarrow> (JDict base_obj, PBase hint members', s'))"
| "traverse_value L s (POpaque t (Some d) txt) detach = (d, POpaque t (Some d) txt, s)"
| "traverse_value L s (POpaque t None txt) detach = (JStr txt, POpaque t None txt, s)"
| "traverse_value L s PNone detach = (JStr ''None'', PNone, s)"
| "traverse_list L s [] = ([], [], s)"
| "traverse_list L s (x # xs) =
     (case traverse_value L s x False of
        (r, x', s1) \<Rightarrow>
          (case traverse_list L s1 xs of (rs, xs', s2) \<Rightarrow> (r # rs, x' # xs', s2)))"
| "traverse_items L s [] = ([], [], s)"
| "traverse_items L s ((k, v) # d) =
     (if is_primitive v then
        (case traverse_items L s d of
           (rd, d', s') \<Rightarrow> ((k, json_of_prim v) # rd, (k, v) # d', s'))
      else
        (case traverse_value L s v False of
           (r, v', s1) \<Rightarrow>
             (case traverse_items L s1 d of
                (rd, d', s2) \<Rightarrow> ((k, r) # rd, (k, py_of_json r) # d', s2))))"

  by pat_completeness auto



termination
  by (relation "measure (\<lambda>x. case x of
        Inl (Inl (L, s, ms)) \<Rightarrow> 2 * weight_items ms + 1
      | Inl (Inr (Inl (L, s, ob, ps))) \<Rightarrow> 2 * weight_items ps
      | Inl (Inr (Inr (L, s, ob, p, v))) \<Rightarrow> 2 * weight v + 1
      | Inr (Inl (L, s, v, d)) \<Rightarrow> 2 * weight v
      | Inr (Inr (Inl (L, s, xs))) \<Rightarrow> 2 * weights xs
      | Inr (Inr (Inr (L, s, d))) \<Rightarrow> 2 * weight_items d)") auto

text \<open>\<^verbatim>\<open>__reset_writer\<close> and \<^verbatim>\<open>write_json\<close>, on an object with the given members.\<close>

definition reset_writer :: "serializer \<Rightarrow> serializer" where
  "reset_writer s = s\<lparr>detach_lineage := [], lineage := [], family_tree := [], closure_table := []\<rparr>"

text \<open>
  \<open>write_json_obj\<close> is \<^verbatim>\<open>write_json\<close> up to \<^verbatim>\<open>hash, obj = self.traverse_base(base)\<close>: it returns
  the hash and the dictionary; \<^verbatim>\<open>write_json\<close> returns the hash and the encoded dictionary.
\<close>

definition write_json_obj ::
    "pylib \<Rightarrow> serializer \<Rightarrow> (string \<times> pyval) list \<Rightarrow>
       (string \<times> (string \<times> json) list) \<times> (string \<times> pyval) list \<times> serializer" where
  "write_json_obj L s members =
     traverse_base L ((reset_writer s)\<lparr>detach_lineage := [True]\<rparr>) members"

definition write_json ::
    "pylib \<Rightarrow> serializer \<Rightarrow> (string \<times> pyval) list \<Rightarrow>
       (string \<times> string) \<times> (string \<times> pyval) list \<times> serializer" where
  "write_json L s members =
     (case write_json_obj L s members of
        ((hash, obj), members', s') \<Rightarrow> ((hash, json_dumps (JDict obj)), members', s'))"

section \<open>Recomposition\<close>

text \<open>
  What the code raises.  \<open>RecursionError\<close> is raised when the budget of references that may
  be followed one inside the other (the first argument of the functions below) is used up: a
  read transport can answer every identifier with a document that refers to another one.
\<close>

datatype error =
    SpeckleException string
  | TypeError
  | AttributeError
  | JSONDecodeError
  | RecursionError

definition no_transport_message :: string where
  "no_transport_message = ''Cannot resolve reference - no read transport is defined''"

definition not_found_message :: "string \<Rightarrow> string \<Rightarrow> string" where
  "not_found_message ref_hash transport_name =
     ''Could not find the referenced child object of id '' @ [CHR 0x60] @ ref_hash @ [CHR 0x60] @
     '' in the given read transport: '' @ transport_name"

fun has_sub :: "string \<Rightarrow> string \<Rightarrow> bool" where
  "has_sub [] p = (p = [])"
| "has_sub (c # cs) p = (startswith (c # cs) p \<or> has_sub cs p)"

text \<open>\<^verbatim>\<open>key in obj\<close>; \<open>None\<close> when Python raises \<^verbatim>\<open>TypeError\<close>.\<close>

fun py_in :: "string \<Rightarrow> json \<Rightarrow> bool option" where
  "py_in key (JDict d) = Some (dict_has d key)"
| "py_in key (JList xs) = Some (JStr key \<in> set xs)"
| "py_in key (JStr t) = Some (has_sub t key)"
| "py_in key v = None"

text \<open>\<^verbatim>\<open>len(obj)\<close>; \<open>None\<close> when Python raises \<^verbatim>\<open>TypeError\<close>.\<close>

fun py_len :: "json \<Rightarrow> nat option" where
  "py_len (JDict d) = Some (length d)"
| "py_len (JList xs) = Some (length xs)"
| "py_len (JStr t) = Some (length t)"
| "py_len v = None"

fun jweight :: "json \<Rightarrow> nat"
  and jweights :: "json list \<Rightarrow> nat"
  and jweight_items :: "(string \<times> json) list \<Rightarrow> nat" where
  "jweight (JList xs) = Suc (jweights xs)"
| "jweight (JDict d) = Suc (jweight_items d)"
| "jweight v = 0"
| "jweights [] = 0"
| "jweights (x # xs) = Suc (jweight x + jweights xs)"
| "jweight_items [] = 0"
| "jweight_items ((k, v) # d) = Suc (jweight v + jweight_items d)"

text \<open>
  A \<^verbatim>\<open>Base\<close> under construction is its hint and its members; \<^verbatim>\<open>base[prop] = value\<close> is
  \<open>set_item\<close>.
\<close>

type_synonym base = "nat option \<times> (string \<times> pyval) list"

definition set_item :: "base \<Rightarrow> string \<Rightarrow> pyval \<Rightarrow> base" where
  "set_item b prop v = (fst b, dict_set prop v (snd b))"

text \<open>
  A result is a value or the exception raised, and the identifiers \<^verbatim>\<open>get_object\<close> has been
  called with so far, oldest first.  As in the traversal, each function returns next to its
  result the argument as the call leaves it: \<^verbatim>\<open>recompose_base\<close> pops \<^verbatim>\<open>__closure\<close> from its
  dictionary and \<^verbatim>\<open>handle_value\<close> assigns into the dictionary it is given.

  \<^item> \<open>recompose_base\<close> is \<^verbatim>\<open>recompose_base\<close> up to the decoding of a string, and
    \<open>recompose_obj\<close> the rest of it; \<open>recompose_props\<close> is its loop over \<^verbatim>\<open>obj.items()\<close> and
    \<open>recompose_prop\<close> one round of the loop.
  \<^item> \<open>handle_value\<close> is \<^verbatim>\<open>handle_value\<close>, \<open>handle_list\<close> its list comprehension and
    \<open>handle_items\<close> its loop.  A value that is none of the cases leaves the function at its
    end, which returns \<^verbatim>\<open>None\<close>.
  \<^item> Modelled from the spec: a read transport is asked for hashes, which are strings; an
    identifier that is not a string is answered with \<open>TypeError\<close>.
\<close>

function (sequential) recompose_base ::
    "nat \<Rightarrow> pylib \<Rightarrow> serializer \<Rightarrow> string list \<Rightarrow> json \<Rightarrow> (error + pyval \<times> pyval) \<times> string list"
  and recompose_obj ::
    "nat \<Rightarrow> pylib \<Rightarrow> serializer \<Rightarrow> string list \<Rightarrow> json \<Rightarrow> (error + pyval \<times> pyval) \<times> string list"
  and recompose_props ::
    "nat \<Rightarrow> pylib \<Rightarrow> serializer \<Rightarrow> string list \<Rightarrow> base \<Rightarrow> (string \<times> json) list \<Rightarrow>
       (error + base \<times> (string \<times> pyval) list) \<times> string list"
  and recompose_prop ::
    "nat \<Rightarrow> pylib \<Rightarrow> serializer \<Rightarrow> string list \<Rightarrow> base \<Rightarrow> string \<Rightarrow> json \<Rightarrow>
       (error + base \<times> pyval) \<times> string list"
  and handle_value ::
    "nat \<Rightarrow> pylib \<Rightarrow> serializer \<Rightarrow> string list \<Rightarrow> json \<Rightarrow> (error + pyval \<times> pyval) \<times> string list"
  and handle_list ::
    "nat \<Rightarrow> pylib \<Rightarrow> serializer \<Rightarrow> string list \<Rightarrow> json list \<Rightarrow>
       (error + pyval list \<times> pyval list) \<times> string list"
  and handle_items ::
    "nat \<Rightarrow> pylib \<Rightarrow> serializer \<Rightarrow> string list \<Rightarrow> (string \<times> json) list \<Rightarrow>
       (error + (string \<times> pyval) list) \<times> string list" where
  "recompose_base fuel L s log obj =
     (if json_falsy obj then (Inr (PNone, py_of_json obj), log)
      else case obj of
        JStr text \<Rightarrow>
          (case json_loads L text of
             None \<Rightarrow> (Inl JSONDecodeError, log)
           | Some obj1 \<Rightarrow>
               (case recompose_obj fuel L s log obj1 of
                  (Inl e, log1) \<Rightarrow> (Inl e, log1)
                | (Inr (b, obj1'), log1) \<Rightarrow> (Inr (b, PStr text), log1)))
      | _ \<Rightarrow> recompose_obj fuel L s log obj)"
| "recompose_obj fuel L s log obj =
     (case py_in ''__closure'' obj of
        None \<Rightarrow> (Inl TypeError, log)
      | Some True \<Rightarrow>
          (if read_transport s = None then (Inl (SpeckleException no_transport_message), log)
           else case obj of
             JDict d \<Rightarrow>
               (case map_of d ''__closure'' of
                  None \<Rightarrow> (Inl TypeError, log)
                | Some closure \<Rightarrow>
                    (case py_len closure of
                       None \<Rightarrow> (Inl TypeError, log)
                     | Some n \<Rightarrow>
                         (case recompose_props fuel L s log (Some n, []) (dict_pop ''__closure'' d) of
                            (Inl e, log1) \<Rightarrow> (Inl e, log1)
                          | (Inr ((hint, members), d'), log1) \<Rightarrow>
                              (Inr (PBase hint members, PDict d'), log1))))
           | JList xs \<Rightarrow> (Inl TypeError, log)
           | _ \<Rightarrow> (Inl AttributeError, log))
      | Some False \<Rightarrow>
          (case obj of
             JDict d \<Rightarrow>
               (case recompose_props fuel L s log (None, []) d of
                  (Inl e, log1) \<Rightarrow> (Inl e, log1)
                | (Inr ((hint, members), d'), log1) \<Rightarrow> (Inr (PBase hint members, PDict d'), log1))
           | _ \<Rightarrow> (Inl AttributeError, log)))"
| "recompose_props fuel L s log b [] = (Inr (b, []), log)"
| "recompose_props fuel L s log b ((prop, value) # items) =
     (case recompose_prop fuel L s log b prop value of
        (Inl e, log1) \<Rightarrow> (Inl e, log1)
      | (Inr (b1, value'), log1) \<Rightarrow>
          (case recompose_props fuel L s log1 b1 items of
             (Inl e, log2) \<Rightarrow> (Inl e, log2)
           | (Inr (b2, items'), log2) \<Rightarrow> (Inr (b2, (prop, value') # items'), log2)))"
| "recompose_prop fuel L s log b prop value =
     (if json_is_primitive value then (Inr (set_item b prop (py_of_json value), py_of_json value), log)
      else case py_in ''referencedId'' value of
        None \<Rightarrow> (Inl TypeError, log)
      | Some True \<Rightarrow>
          (case value of
             JDict vd \<Rightarrow>
               (case read_transport s of
                  None \<Rightarrow> (Inl AttributeError, log)
                | Some t \<Rightarrow>
                    (case map_of vd ''referencedId'' of
                       Some (JStr ref_hash) \<Rightarrow>
                         (case get_object t ref_hash of
                            None \<Rightarrow>
                              (Inl (SpeckleException (not_found_message ref_hash (name t))),
                               log @ [ref_hash])
                          | Some ref_obj_str \<Rightarrow>
                              if ref_obj_str = [] then
                                (Inl (SpeckleException (not_found_message ref_hash (name t))),
                                 log @ [ref_hash])
                              else
                                (case fuel of
                                   0 \<Rightarrow> (Inl RecursionError, log @ [ref_hash])
                                 | Suc fuel' \<Rightarrow>
                                     (case json_loads L ref_obj_str of
                                        None \<Rightarrow> (Inl JSONDecodeError, log @ [ref_hash])
                                      | Some ref_obj \<Rightarrow>
                                          (case recompose_base fuel' L s (log @ [ref_hash]) ref_obj of
                                             (Inl e, log1) \<Rightarrow> (Inl e, log1)
                                           | (Inr (r, ref_obj'), log1) \<Rightarrow>
                                               (Inr (set_item b prop r, py_of_json value), log1)))))
                     | _ \<Rightarrow> (Inl TypeError, log)))
           | _ \<Rightarrow> (Inl TypeError, log))
      | Some False \<Rightarrow>
          (case handle_value fuel L s log value of
             (Inl e, log1) \<Rightarrow> (Inl e, log1)
           | (Inr (r, value'), log1) \<Rightarrow> (Inr (set_item b prop r, value'), log1)))"
| "handle_value fuel L s log obj =
     (if json_is_primitive obj then (Inr (py_of_json obj, py_of_json obj), log)
      else case obj of
        JList xs \<Rightarrow>
          (case handle_list fuel L s log xs of
             (Inl e, log1) \<Rightarrow> (Inl e, log1)
           | (Inr (rs, xs'), log1) \<Rightarrow> (Inr (PList rs, PList xs'), log1))
      | JDict d \<Rightarrow>
          (if dict_has d ''speckleType'' then recompose_base fuel L s log obj
           else case handle_items fuel L s log d of
             (Inl e, log1) \<Rightarrow> (Inl e, log1)
           | (Inr d', log1) \<Rightarrow> (Inr (PDict d', PDict d'), log1))
      | _ \<Rightarrow> (Inr (PNone, py_of_json obj), log))"
| "handle_list fuel L s log [] = (Inr ([], []), log)"
| "handle_list fuel L s log (x # xs) =
     (case handle_value fuel L s log x of
        (Inl e, log1) \<Rightarrow> (Inl e, log1)
      | (Inr (r, x'), log1) \<Rightarrow>
          (case handle_list fuel L s log1 xs of
             (Inl e, log2) \<Rightarrow> (Inl e, log2)
           | (Inr (rs, xs'), log2) \<Rightarrow> (Inr (r # rs, x' # xs'), log2)))"
| "handle_items fuel L s log [] = (Inr [], log)"
| "handle_items fuel L s log ((k, v) # d) =
     (if json_is_primitive v then
        (case handle_items fuel L s log d of
           (Inl e, log1) \<Rightarrow> (Inl e, log1)
         | (Inr d', log1) \<Rightarrow> (Inr ((k, py_of_json v) # d'), log1))
      else
        (case handle_value fuel L s log v of
           (Inl e, log1) \<Rightarrow> (Inl e, log1)
         | (Inr (r, v'), log1) \<Rightarrow>
             (case handle_items fuel L s log1 d of
                (Inl e, log2) \<Rightarrow> (Inl e, log2)
              | (Inr d', log2) \<Rightarrow> (Inr ((k, r) # d'), log2))))"
  by pat_completeness auto

termination
proof -
  have pop: "4 * jweight_items (dict_pop k d) < 4 + 4 * jweight_items d"
    for k :: string and d :: "(string \<times> json) list"
  proof -
    have "jweight_items (dict_pop k d) \<le> jweight_items d"
      by (induction d) (auto simp: dict_pop_def)
    then show ?thesis by simp
  qed
  show ?thesis
    by (relation "inv_image (less_than <*lex*> less_than <*lex*> less_than) (\<lambda>x. case x of
          Inl (Inl (fuel, L, s, log, obj)) \<Rightarrow>
            (fuel, case obj of JStr text \<Rightarrow> Suc 0 | _ \<Rightarrow> 0, 4 * jweight obj + 1)
        | Inl (Inr (Inl (fuel, L, s, log, obj))) \<Rightarrow> (fuel, 0, 4 * jweight obj)
        | Inl (Inr (Inr (fuel, L, s, log, b, d))) \<Rightarrow> (fuel, 0, 4 * jweight_items d)
        | Inr (Inl (Inl (fuel, L, s, log, b, prop, v))) \<Rightarrow> (fuel, 0, 4 * jweight v + 3)
        | Inr (Inl (Inr (fuel, L, s, log, obj))) \<Rightarrow> (fuel, 0, 4 * jweight obj + 2)
        | Inr (Inr (Inl (fuel, L, s, log, xs))) \<Rightarrow> (fuel, 0, 4 * jweights xs)
        | Inr (Inr (Inr (fuel, L, s, log, d))) \<Rightarrow> (fuel, 0, 4 * jweight_items d))")
       (auto simp: pop)
qed

text \<open>\<^verbatim>\<open>read_json\<close>; its \<^verbatim>\<open>id\<close> is not used.\<close>

definition read_json ::
    "nat \<Rightarrow> pylib \<Rightarrow> serializer \<Rightarrow> string \<Rightarrow> string \<Rightarrow> (error + pyval) \<times> string list" where
  "read_json fuel L s ident obj_string =
     (if obj_string = [] then (Inr PNone, [])
      else case json_loads L obj_string of
        None \<Rightarrow> (Inl JSONDecodeError, [])
      | Some obj \<Rightarrow>
          (case recompose_base fuel L s [] obj of
             (Inl e, log) \<Rightarrow> (Inl e, log)
           | (Inr (b, obj'), log) \<Rightarrow> (Inr b, log)))"

text \<open>
  \<^verbatim>\<open>__init__\<close>: the transports are given, the other fields have the defaults of the class.
\<close>

definition init :: "write_transport list \<Rightarrow> read_transport option \<Rightarrow> serializer" where
  "init wts rt =
     \<lparr>write_transports = wts, read_transport = rt, detach_lineage = [], lineage = [],
      family_tree = [], closure_table = [], uuid_count = 0\<rparr>"

text \<open>
  A library to evaluate examples with: the digest is a stand-in that returns its input, so
  hashes of different encodings are different where their first 32 characters are; the
  identifiers are the decimal numbers; nothing is decoded.
\<close>

definition demo_lib :: pylib where
  "demo_lib = \<lparr>sha256_hexdigest = (\<lambda>text. text), uuid4_hex = dec_nat, json_loads = (\<lambda>text. None)\<rparr>"

text \<open>A read transport, named \<^verbatim>\<open>memory\<close>, that holds nothing.\<close>

definition empty_source :: read_transport where
  "empty_source = \<lparr>name = ''memory'', get_object = (\<lambda>h. None)\<rparr>"

text \<open>
  A read transport named \<^verbatim>\<open>memory\<close> that holds the given texts under their identifiers, and a
  decoder that knows the given documents: it decodes the text \<^verbatim>\<open>json.dumps\<close> gives a document
  into that document.  \<open>decoding_lib\<close> decodes the record \<open>child_doc\<close> of a child, to which the
  record \<open>root_doc\<close> refers.
\<close>

definition memory_source :: "(string \<times> string) list \<Rightarrow> read_transport" where
  "memory_source saved = \<lparr>name = ''memory'', get_object = map_of saved\<rparr>"

definition demo_decoder :: "json list \<Rightarrow> string \<Rightarrow> json option" where
  "demo_decoder docs text = map_of (map (\<lambda>j. (json_dumps j, j)) docs) text"

definition child_doc :: json where
  "child_doc = JDict [(''id'', JStr ''abc''), (''x'', JInt 5)]"

definition decoding_lib :: pylib where
  "decoding_lib = demo_lib\<lparr>json_loads := demo_decoder [child_doc]\<rparr>"

definition root_doc :: "(string \<times> json) list" where
  "root_doc = [(''id'', JStr ''r''),
               (''@child'', JDict [(''referencedId'', JStr ''abc''), (''speckleType'', JStr ''reference'')]),
               (''__closure'', JDict [(''abc'', JInt 1)])]"

text \<open>
  \<open>copy_items b items\<close> is the object \<open>b\<close> after \<^verbatim>\<open>base[prop] = value\<close> for every entry of
  \<open>items\<close>, in their order: what the loop of \<^verbatim>\<open>recompose_base\<close> makes of primitive entries.
\<close>

definition copy_items :: "base \<Rightarrow> (string \<times> json) list \<Rightarrow> base" where
  "copy_items b items = foldl (\<lambda>b (k, v). set_item b k (py_of_json v)) b items"

text \<open>
  \<open>resolves_flat L t v\<close>: the value \<open>v\<close> is a dictionary with a \<^verbatim>\<open>referencedId\<close>, a string, for
  which the read transport \<open>t\<close> returns a text that is not empty and that decodes into a
  dictionary, not empty and without \<^verbatim>\<open>__closure\<close>, all of whose values are primitive.
\<close>

fun resolves_flat :: "pylib \<Rightarrow> read_transport \<Rightarrow> json \<Rightarrow> bool" where
  "resolves_flat L t (JDict marker) =
     (case map_of marker ''referencedId'' of
        Some (JStr h) \<Rightarrow>
          (case get_object t h of
             None \<Rightarrow> False
           | Some doc \<Rightarrow>
               doc \<noteq> [] \<and>
               (case json_loads L doc of
                  Some (JDict rd) \<Rightarrow>
                    rd \<noteq> [] \<and> \<not> dict_has rd ''__closure'' \<and>
                    list_all (\<lambda>p. json_is_primitive (snd p)) rd
                | _ \<Rightarrow> False))
      | _ \<Rightarrow> False)"
| "resolves_flat L t v = False"

section \<open>The decomposition as a function of the object\<close>

text \<open>
  The definitions of this section are not code of the serializer.  They say what the
  traversal computes as functions of the object alone, without the serializer, for the
  theorems below to compare the code with.

  An \<open>event\<close> is the detachment of an object as an object above it sees it: the hash of the
  detached object and a depth.  A \<open>save\<close> is a call of \<^verbatim>\<open>save_object\<close>: the hash and the encoded
  record.
\<close>

type_synonym event = "string \<times> int"
type_synonym save = "string \<times> string"

text \<open>
  \<open>merge e c\<close> is the table \<open>c\<close> of one parent after the body of the loop of
  \<^verbatim>\<open>detach_helper\<close> for the event \<open>e\<close>: the entry of the hash is set when the hash is new
  or when its depth is greater than the depth of the event.  \<open>closure_of E\<close> is the table
  after the events \<open>E\<close>, in their order.  \<open>deeper\<close> is an event seen from one object further
  up, and \<open>reference h\<close> the marker \<^verbatim>\<open>detach_helper\<close> returns for the hash \<open>h\<close>.
\<close>

definition merge :: "event \<Rightarrow> closure \<Rightarrow> closure" where
  "merge e c =
     (case map_of c (fst e) of
        None \<Rightarrow> dict_set (fst e) (snd e) c
      | Some d \<Rightarrow> if d > snd e then dict_set (fst e) (snd e) c else c)"

definition closure_of :: "event list \<Rightarrow> closure" where
  "closure_of E = foldl (\<lambda>c e. merge e c) [] E"

definition deeper :: "event \<Rightarrow> event" where
  "deeper e = (fst e, snd e + 1)"

definition reference :: "string \<Rightarrow> json" where
  "reference h = JDict [(''referencedId'', JStr h), (''speckleType'', JStr ''reference'')]"

text \<open>
  \<open>ser_base\<close> and its companions follow the functions of the traversal one by one.  Next to
  the result and the argument as the call leaves it, each returns the events of the
  detachments below it, with depths counted from the object that is open, and the saves of
  the detached objects below it, both in the order of the traversal.  The record of an object
  gets the closure of its events.  Lemma \<open>traverse_is_ser\<close> below: this is what the code
  computes.
\<close>

function (sequential) ser_base ::
    "pylib \<Rightarrow> (string \<times> pyval) list \<Rightarrow>
       string \<times> (string \<times> json) list \<times> (string \<times> pyval) list \<times> event list \<times> save list"
  and ser_props ::
    "pylib \<Rightarrow> (string \<times> json) list \<Rightarrow> (string \<times> pyval) list \<Rightarrow>
       (string \<times> json) list \<times> (string \<times> pyval) list \<times> event list \<times> save list"
  and ser_prop ::
    "pylib \<Rightarrow> (string \<times> json) list \<Rightarrow> string \<Rightarrow> pyval \<Rightarrow>
       (string \<times> json) list \<times> pyval \<times> event list \<times> save list"
  and ser_value :: "pylib \<Rightarrow> pyval \<Rightarrow> json \<times> pyval \<times> event list \<times> save list"
  and ser_list :: "pylib \<Rightarrow> pyval list \<Rightarrow> json list \<times> pyval list \<times> event list \<times> save list"
  and ser_items ::
    "pylib \<Rightarrow> (string \<times> pyval) list \<Rightarrow>
       (string \<times> json) list \<times> (string \<times> pyval) list \<times> event list \<times> save list" where
  "ser_base L members =
     (case ser_props L [(''id'', JStr [])] members of
        (ob, members', E, S) \<Rightarrow>
          let hash = hash_obj L (JDict ob);
              ob1 = dict_set ''id'' (JStr hash) ob;
              ob2 = (if E = [] then ob1
                     else dict_set ''__closure'' (closure_json (closure_of E)) ob1)
          in (hash, ob2, members', E, S))"
| "ser_props L ob [] = (ob, [], [], [])"
| "ser_props L ob ((k, v) # props) =
     (case ser_prop L ob k v of
        (ob1, v', E1, S1) \<Rightarrow>
          (case ser_props L ob1 props of
             (ob2, props', E2, S2) \<Rightarrow> (ob2, (k, v') # props', E1 @ E2, S1 @ S2)))"
| "ser_prop L ob k v =
     (if falsy v \<or> startswith k ''__'' then (ob, v, [], [])
      else if is_primitive v then (dict_set k (json_of_prim v) ob, v, [], [])
      else
        (case ser_value L v of
           (j, v', E, S) \<Rightarrow>
             if is_base v \<and> startswith k ''@'' then
               (dict_set k (reference (id_of j)) ob, v',
                E @ [(id_of j, 1)], S @ [(id_of j, json_dumps j)])
             else (dict_set k j ob, v', E, S)))"
| "ser_value L (PBool b) = (JBool b, PBool b, [], [])"
| "ser_value L (PInt i) = (JInt i, PInt i, [], [])"
| "ser_value L (PFloat r) = (JFloat r, PFloat r, [], [])"
| "ser_value L (PStr t) = (JStr t, PStr t, [], [])"
| "ser_value L (PList xs) =
     (case ser_list L xs of (rs, xs', E, S) \<Rightarrow> (JList rs, PList xs', E, S))"
| "ser_value L (PTuple xs) =
     (case ser_list L xs of (rs, xs', E, S) \<Rightarrow> (JList rs, PTuple xs', E, S))"
| "ser_value L (PSet xs) =
     (case ser_list L xs of (rs, xs', E, S) \<Rightarrow> (JList rs, PSet xs', E, S))"
| "ser_value L (PDict d) =
     (case ser_items L d of (rd, d', E, S) \<Rightarrow> (JDict rd, PDict d', E, S))"
| "ser_value L (PBase hint members) =
     (case ser_base L members of
        (hash, base_obj, members', E, S) \<Rightarrow>
          (JDict base_obj, PBase hint members', map deeper E, S))"
| "ser_value L (POpaque t (Some d) txt) = (d, POpaque t (Some d) txt, [], [])"
| "ser_value L (POpaque t None txt) = (JStr txt, POpaque t None txt, [], [])"
| "ser_value L PNone = (JStr ''None'', PNone, [], [])"
| "ser_list L [] = ([], [], [], [])"
| "ser_list L (x # xs) =
     (case ser_value L x of
        (r, x', E1, S1) \<Rightarrow>
          (case ser_list L xs of
             (rs, xs', E2, S2) \<Rightarrow> (r # rs, x' # xs', E1 @ E2, S1 @ S2)))"
| "ser_items L [] = ([], [], [], [])"
| "ser_items L ((k, v) # d) =
     (if is_primitive v then
        (case ser_items L d of
           (rd, d', E, S) \<Rightarrow> ((k, json_of_prim v) # rd, (k, v) # d', E, S))
      else
        (case ser_value L v of
           (r, v', E1, S1) \<Rightarrow>
             (case ser_items L d of
                (rd, d', E2, S2) \<Rightarrow> ((k, r) # rd, (k, py_of_json r) # d', E1 @ E2, S1 @ S2))))"
  by pat_completeness auto

termination
  by (relation "measure (\<lambda>x. case x of
        Inl (Inl (L, ms)) \<Rightarrow> 2 * weight_items ms + 1
      | Inl (Inr (Inl (L, ob, ps))) \<Rightarrow> 2 * weight_items ps
      | Inl (Inr (Inr (L, ob, p, v))) \<Rightarrow> 2 * weight v + 1
      | Inr (Inl (L, v)) \<Rightarrow> 2 * weight v
      | Inr (Inr (Inl (L, xs))) \<Rightarrow> 2 * weights xs
      | Inr (Inr (Inr (L, d))) \<Rightarrow> 2 * weight_items d)") auto

text \<open>
  The serializer along the traversal, for lemma \<open>traverse_is_ser\<close>.

  \<^item> \<open>apply_events off E\<close> is what the events \<open>E\<close>, at the depth \<open>off\<close> of the object whose
    events they are, make of the table of one open ancestor in \<^verbatim>\<open>family_tree\<close> (no table, or
    a table).
  \<^item> \<open>tokens_issued L s\<close>: the identifiers of the lineage are distinct, and they and the keys of
    \<^verbatim>\<open>family_tree\<close> are values \<^verbatim>\<open>uuid4()\<close> has returned so far.
  \<^item> \<open>eff L s s' off E S\<close>: from \<open>s\<close> to \<open>s'\<close> the lineage and the read transport are the same,
    every write transport has received the saves \<open>S\<close>, the tables of the open ancestors have
    received the events \<open>E\<close>, and the other tables are the same, but for those of identifiers
    issued in between.
  \<^item> \<open>shift k c\<close> is the table \<open>c\<close> with depths counted from \<open>k\<close>, as \<^verbatim>\<open>traverse_base\<close> writes
    it into the record.
\<close>

definition apply_events :: "int \<Rightarrow> event list \<Rightarrow> closure option \<Rightarrow> closure option" where
  "apply_events off E co =
     foldl (\<lambda>co e. Some (merge (fst e, snd e + off) (case co of None \<Rightarrow> [] | Some c \<Rightarrow> c))) co E"

definition tokens_issued :: "pylib \<Rightarrow> serializer \<Rightarrow> bool" where
  "tokens_issued L s \<longleftrightarrow>
     distinct (lineage s) \<and>
     (\<forall>t. t \<in> set (lineage s) \<or> map_of (family_tree s) t \<noteq> None \<longrightarrow>
          (\<exists>i < uuid_count s. t = uuid4_hex L i))"

definition eff :: "pylib \<Rightarrow> serializer \<Rightarrow> serializer \<Rightarrow> int \<Rightarrow> event list \<Rightarrow> save list \<Rightarrow> bool" where
  "eff L s s' off E S \<longleftrightarrow>
     lineage s' = lineage s \<and>
     read_transport s' = read_transport s \<and>
     write_transports s' = map (\<lambda>t. t @ S) (write_transports s) \<and>
     uuid_count s \<le> uuid_count s' \<and>
     (\<forall>t \<in> set (lineage s).
        map_of (family_tree s') t = apply_events off E (map_of (family_tree s) t)) \<and>
     (\<forall>t. t \<notin> set (lineage s) \<longrightarrow> t \<notin> uuid4_hex L ` {uuid_count s ..< uuid_count s'} \<longrightarrow>
        map_of (family_tree s') t = map_of (family_tree s) t)"

definition shift :: "int \<Rightarrow> closure \<Rightarrow> closure" where
  "shift k c = map (\<lambda>(ref, depth). (ref, depth - k)) c"

section \<open>The detached objects below an object\<close>

text \<open>
  These definitions follow the words of the specification, not the code.  An object is
  detached when a property whose name begins with \<^verbatim>\<open>@\<close> holds it; a property that is skipped
  (a falsy value, or a name that begins with \<^verbatim>\<open>__\<close>) holds nothing.

  \<open>detached_props members\<close> lists the detached objects below an object with these members:
  those its own properties hold, and those below the values of its properties, through
  objects (detached or not), lists, tuples, sets and dictionaries.  An occurrence is the
  detached object, given by its members, with the number of objects on the way from the outer
  object (not counted) down to the detached object (counted).  The occurrences are listed in
  the order of the properties and elements, the detached objects below an object before the
  object itself.
\<close>

type_synonym occurrence = "(string \<times> pyval) list \<times> nat"


text \<open>
  The event and the save of an occurrence, by \<open>ser_base\<close>; and, by the code, the occurrences
  as the hash \<^verbatim>\<open>write_json\<close> returns for the detached object with the depth of the
  occurrence.
\<close>

definition event_of :: "pylib \<Rightarrow> occurrence \<Rightarrow> event" where
  "event_of L od = (fst (ser_base L (fst od)), int (snd od))"

definition save_of :: "pylib \<Rightarrow> occurrence \<Rightarrow> save" where
  "save_of L od = (fst (ser_base L (fst od)), json_dumps (JDict (fst (snd (ser_base L (fst od))))))"


text \<open>
  \<open>plain v\<close>: no dictionary in the value \<open>v\<close> holds a value that is not primitive.  Such a
  dictionary is what \<^verbatim>\<open>traverse_value\<close> assigns into.
\<close>

fun plain :: "pyval \<Rightarrow> bool"
  and plain_list :: "pyval list \<Rightarrow> bool"
  and plain_members :: "(string \<times> pyval) list \<Rightarrow> bool" where
  "plain (PList xs) = plain_list xs"
| "plain (PTuple xs) = plain_list xs"
| "plain (PSet xs) = plain_list xs"
| "plain (PDict d) = list_all (\<lambda>p. is_primitive (snd p)) d"
| "plain (PBase hint members) = plain_members members"
| "plain v = True"
| "plain_list [] = True"
| "plain_list (x # xs) = (plain x \<and> plain_list xs)"
| "plain_members [] = True"
| "plain_members ((k, v) # members) = (plain v \<and> plain_members members)"

text \<open>
  Objects and a library to evaluate examples with.  \<open>other_lib\<close> is \<open>demo_lib\<close> with other
  identifiers.  In \<open>shared_child\<close> the object \<^verbatim>\<open>{x: 5}\<close> is detached twice, below the object
  \<open>n\<close> and below the root.  In \<open>dict_of_objects\<close> a dictionary holds an object that has a
  detached child.  In \<open>two_detached\<close> one detached object is held by the root and another
  by an object in a list of an object that is not detached.
\<close>

definition other_lib :: pylib where
  "other_lib = demo_lib\<lparr>uuid4_hex := (\<lambda>n. CHR ''u'' # dec_nat n)\<rparr>"

definition shared_child :: "(string \<times> pyval) list" where
  "shared_child =
     [(''n'', PBase None [(''@c'', PBase None [(''x'', PInt 5)])]),
      (''@c'', PBase None [(''x'', PInt 5)])]"

definition dict_of_objects :: "(string \<times> pyval) list" where
  "dict_of_objects = [(''d'', PDict [(''k'', PBase None [(''@c'', PBase None [(''x'', PInt 5)])])])]"


section \<open>Evaluation\<close>

lemmas traverse_defs =
  enter_base_def leave_base_def startswith_def reset_writer_def write_json_obj_def write_json_def
  detach_helper_def track_def dict_has_def closure_json_def save_object_def Let_def init_def

section \<open>Falsy properties are dropped, the others are kept\<close>

text \<open>
  C3, as the code has it.  The object \<^verbatim>\<open>{a: 1, b: 0, c: "", d: None}\<close> is decomposed into
  the record \<^verbatim>\<open>{id: <hash>, a: 1}\<close>: the falsy \<open>b\<close>, \<open>c\<close> and \<open>d\<close> are dropped, and \<open>a\<close>,
  a primitive that is not falsy, is kept.  The hash is the hash of \<^verbatim>\<open>{id: "", a: 1}\<close>.
\<close>

theorem falsy_properties_dropped:
  "fst (write_json_obj L s [(''a'', PInt 1), (''b'', PInt 0), (''c'', PStr []), (''d'', PNone)]) =
     (hash_obj L (JDict [(''id'', JStr []), (''a'', JInt 1)]),
      [(''id'', JStr (hash_obj L (JDict [(''id'', JStr []), (''a'', JInt 1)]))), (''a'', JInt 1)])"
  by (simp add: traverse_defs)

text \<open>
  C3, as the claim states it, fails: the record of that object does not contain \<^verbatim>\<open>id\<close>
  only.
\<close>

theorem record_not_only_id:
  "map fst (snd (fst (write_json_obj demo_lib (init [] None)
      [(''a'', PInt 1), (''b'', PInt 0), (''c'', PStr []), (''d'', PNone)]))) \<noteq> [''id'']"
  by (simp add: traverse_defs)

section \<open>Dictionaries, again\<close>

lemma map_of_dict_set: "map_of (dict_set k v d) = (map_of d)(k \<mapsto> v)"
  by (induction d) auto

lemma dict_set_keys: "fst ` set (dict_set k v d) = insert k (fst ` set d)"
  using arg_cong [OF map_of_dict_set, of dom k v d] by (simp add: dom_map_of_conv_image_fst)

lemma dict_pop_keys: "fst ` set (dict_pop k d) = fst ` set d - {k}"
  by (induction d) (auto simp: dict_pop_def)

lemma dict_has_keys: "dict_has d k \<longleftrightarrow> k \<in> fst ` set d"
  by (simp add: dict_has_def map_of_eq_None_iff)

section \<open>A reference that cannot be resolved\<close>

lemma has_sub_append: "has_sub (xs @ p @ ys) p"
proof (induction xs)
  case Nil
  show ?case
  proof (cases "p @ ys")
    case Nil
    then show ?thesis by simp
  next
    case (Cons c cs)
    have "take (length p) (p @ ys) = p" by simp
    with Cons have "startswith (c # cs) p" by (simp add: startswith_def)
    with Cons show ?thesis by simp
  qed
next
  case (Cons x xs)
  then show ?case by simp
qed

lemma not_found_message_names:
  "has_sub (not_found_message h n) h \<and> has_sub (not_found_message h n) n"
proof
  show "has_sub (not_found_message h n) h"
    unfolding not_found_message_def
    using has_sub_append [of "''Could not find the referenced child object of id '' @ [CHR 0x60]" h
        "[CHR 0x60] @ '' in the given read transport: '' @ n"]
    by simp
  show "has_sub (not_found_message h n) n"
    unfolding not_found_message_def
    using has_sub_append [of "''Could not find the referenced child object of id '' @ [CHR 0x60] @ h @ [CHR 0x60] @ '' in the given read transport: ''" n "[]"]
    by simp
qed

text \<open>
  C6, as the claim states it, fails: the record \<^verbatim>\<open>{referencedId: "abc"}\<close> itself is
  recomposed into an object with the property \<^verbatim>\<open>referencedId\<close>, a string, although the read
  transport holds nothing; \<^verbatim>\<open>get_object\<close> is not called.
\<close>

theorem top_level_marker_not_resolved:
  "recompose_base 1 demo_lib (init [] (Some empty_source)) [] (JDict [(''referencedId'', JStr ''abc'')]) =
     (Inr (PBase None [(''referencedId'', PStr ''abc'')], PDict [(''referencedId'', PStr ''abc'')]), [])"
  by (simp add: dict_has_def set_item_def)

section \<open>A record with a closure\<close>

lemma recompose_prop_base:
  "recompose_prop fuel L s log b prop value = (Inr (b', v'), log') \<Longrightarrow>
     \<exists>r. b' = set_item b prop r"
  apply (simp only: recompose_prop.simps)
  apply (auto split: if_splits option.splits json.splits sum.splits prod.splits bool.splits nat.splits
        simp del: recompose_base.simps recompose_obj.simps recompose_props.simps recompose_prop.simps
          handle_value.simps handle_list.simps handle_items.simps)
  done

lemma recompose_props_keys:
  "recompose_props fuel L s log b items = (Inr (b', items'), log') \<Longrightarrow>
     fst b' = fst b \<and> fst ` set (snd b') \<subseteq> fst ` set (snd b) \<union> fst ` set items"
proof (induction items arbitrary: b log b' items' log')
  case Nil
  then show ?case by simp
next
  case (Cons p items)
  obtain k v where p: "p = (k, v)" by (cases p)
  from Cons.prems p obtain b1 v1 log1 b2 items2 where
    one: "recompose_prop fuel L s log b k v = (Inr (b1, v1), log1)" and
    rest: "recompose_props fuel L s log1 b1 items = (Inr (b2, items2), log')" and
    eq: "b' = b2"
    by (auto split: prod.splits sum.splits)
  from recompose_prop_base [OF one] obtain r where b1: "b1 = set_item b k r" by blast
  from Cons.IH [OF rest] b1 eq p show ?case
    by (auto simp: set_item_def dict_set_keys)
qed

section \<open>A detached child\<close>

text \<open>
  C2.  The root object has the single property \<^verbatim>\<open>@child\<close>, which holds the object
  \<^verbatim>\<open>{x: 5}\<close>.  With \<open>H\<close> the hash of the child and \<open>R\<close> the hash of the root, the record of the
  root is \<^verbatim>\<open>{id: R, @child: {referencedId: H, speckleType: "reference"}, __closure: {H: 1}}\<close>,
  and every write transport receives the call for \<open>H\<close> with the record \<^verbatim>\<open>{id: H, x: 5}\<close> of
  the child, followed by the call for the root.  Where the two hashes differ, that is the one
  call for \<open>H\<close>.  (The code names the discriminator of the marker \<^verbatim>\<open>speckleType\<close> and the
  closure field \<^verbatim>\<open>__closure\<close>.)
\<close>

theorem detached_child_scenario:
  "let H = hash_obj L (JDict [(''id'', JStr []), (''x'', JInt 5)]);
       reference = JDict [(''referencedId'', JStr H), (''speckleType'', JStr ''reference'')];
       R = hash_obj L (JDict [(''id'', JStr []), (''@child'', reference)]);
       child = [(''id'', JStr H), (''x'', JInt 5)];
       root = [(''id'', JStr R), (''@child'', reference), (''__closure'', JDict [(H, JInt 1)])]
   in R \<noteq> H \<longrightarrow>
        (case write_json_obj L s [(''@child'', PBase hint [(''x'', PInt 5)])] of
           (result, members', s') \<Rightarrow>
             result = (R, root) \<and>
             write_transports s' =
               map (\<lambda>t. t @ [(H, json_dumps (JDict child)), (R, json_dumps (JDict root))])
                 (write_transports s) \<and>
             filter (\<lambda>call. fst call = H) [(H, json_dumps (JDict child)), (R, json_dumps (JDict root))] =
               [(H, json_dumps (JDict child))])"
  by (simp add: traverse_defs del: json_dumps.simps)

theorem detached_child_scenario_witness:
  "hash_obj demo_lib (JDict [(''id'', JStr []), (''@child'',
       JDict [(''referencedId'', JStr (hash_obj demo_lib (JDict [(''id'', JStr []), (''x'', JInt 5)]))),
              (''speckleType'', JStr ''reference'')])]) \<noteq>
   hash_obj demo_lib (JDict [(''id'', JStr []), (''x'', JInt 5)]) \<and>
   map (map fst) (write_transports (snd (snd (write_json_obj demo_lib (init [[]] None)
       [(''@child'', PBase None [(''x'', PInt 5)])])))) =
     [[hash_obj demo_lib (JDict [(''id'', JStr []), (''x'', JInt 5)]),
       hash_obj demo_lib (JDict [(''id'', JStr []), (''@child'',
         JDict [(''referencedId'', JStr (hash_obj demo_lib (JDict [(''id'', JStr []), (''x'', JInt 5)]))),
                (''speckleType'', JStr ''reference'')])])]]"
proof -
  have ne: "hash_obj demo_lib (JDict [(''id'', JStr []), (''@child'',
       JDict [(''referencedId'', JStr (hash_obj demo_lib (JDict [(''id'', JStr []), (''x'', JInt 5)]))),
              (''speckleType'', JStr ''reference'')])]) \<noteq>
   hash_obj demo_lib (JDict [(''id'', JStr []), (''x'', JInt 5)])"
    by (simp add: hash_obj_def demo_lib_def quote_def escape_char_def)
  from ne detached_child_scenario [where L = demo_lib and s = "init [[]] None" and hint = None]
  show ?thesis
    by (simp add: Let_def init_def split: prod.splits)
qed

section \<open>The hash of an object that has an id\<close>

text \<open>
  C5, at an object that has a property \<^verbatim>\<open>id\<close> (as every object that \<^verbatim>\<open>recompose_base\<close>
  returns has).  \<^verbatim>\<open>traverse_base\<close> copies the property over the empty \<^verbatim>\<open>id\<close> it has put into
  the dictionary, and hashes.  The records of \<^verbatim>\<open>{id: "abc", x: 5}\<close> and of \<^verbatim>\<open>{x: 5}\<close> have the
  same fields but for \<^verbatim>\<open>id\<close>, and their hashes are the hashes of two different encodings.
\<close>

theorem own_id_enters_hash:
  "fst (write_json_obj L s [(''id'', PStr ''abc''), (''x'', PInt 5)]) =
     (hash_obj L (JDict [(''id'', JStr ''abc''), (''x'', JInt 5)]),
      [(''id'', JStr (hash_obj L (JDict [(''id'', JStr ''abc''), (''x'', JInt 5)]))), (''x'', JInt 5)]) \<and>
   fst (write_json_obj L s [(''x'', PInt 5)]) =
     (hash_obj L (JDict [(''id'', JStr []), (''x'', JInt 5)]),
      [(''id'', JStr (hash_obj L (JDict [(''id'', JStr []), (''x'', JInt 5)]))), (''x'', JInt 5)]) \<and>
   json_dumps (JDict [(''id'', JStr ''abc''), (''x'', JInt 5)]) \<noteq>
     json_dumps (JDict [(''id'', JStr []), (''x'', JInt 5)])"
  by (simp add: traverse_defs quote_def escape_char_def)

section \<open>Dictionaries are rewritten where they are\<close>

lemma py_of_json_prim: "is_primitive v \<Longrightarrow> py_of_json (json_of_prim v) = v"
  by (cases v) auto

lemma py_of_json_not_base: "py_of_json j \<noteq> PBase h ms" "PBase h ms \<noteq> py_of_json j"
  by (cases j; simp)+

lemma py_of_items_not_base: "(k, PBase h ms) \<notin> set (py_of_items rd)"
  by (induction rd) (auto simp: py_of_json_not_base)

lemma traverse_items_in_place:
  "traverse_items L s d = (rd, d', s') \<Longrightarrow>
     d' = py_of_items rd \<and>
     list_all2 (\<lambda>(k, v) (k', r). k' = k \<and>
        (if is_primitive v then r = json_of_prim v
         else (\<exists>s1 v' s2. traverse_value L s1 v False = (r, v', s2)))) d rd"
proof (induction d arbitrary: s rd d' s')
  case Nil
  then show ?case by simp
next
  case (Cons p d)
  obtain k v where p: "p = (k, v)" by (cases p)
  show ?case
  proof (cases "is_primitive v")
    case True
    with Cons.prems p obtain rd1 d1 where
      rest: "traverse_items L s d = (rd1, d1, s')" and
      rd: "rd = (k, json_of_prim v) # rd1" and d': "d' = (k, v) # d1"
      by (auto simp del: traverse_value.simps split: prod.splits)
    from Cons.IH [OF rest] True p rd d' show ?thesis
      by (simp add: py_of_json_prim)
  next
    case False
    with Cons.prems p obtain r v' s1 rd1 d1 where
      one: "traverse_value L s v False = (r, v', s1)" and
      rest: "traverse_items L s1 d = (rd1, d1, s')" and
      rd: "rd = (k, r) # rd1" and d': "d' = (k, py_of_json r) # d1"
      by (auto simp del: traverse_value.simps split: prod.splits)
    from Cons.IH [OF rest] False p rd d' one show ?thesis
      by (auto simp del: traverse_value.simps)
  qed
qed


lemma handle_items_in_place:
  "handle_items fuel L s log d = (Inr d', log') \<Longrightarrow>
     list_all2 (\<lambda>(k, v) (k', r). k' = k \<and>
        (if json_is_primitive v then r = py_of_json v
         else (\<exists>log1 v' log2. handle_value fuel L s log1 v = (Inr (r, v'), log2)))) d d'"
proof (induction d arbitrary: log d' log')
  case Nil
  then show ?case by simp
next
  case (Cons p d)
  obtain k v where p: "p = (k, v)" by (cases p)
  show ?case
  proof (cases "json_is_primitive v")
    case True
    with Cons.prems p obtain d1 where
      rest: "handle_items fuel L s log d = (Inr d1, log')" and
      d': "d' = (k, py_of_json v) # d1"
      by (auto simp del: handle_value.simps split: prod.splits sum.splits)
    from Cons.IH [OF rest] True p d' show ?thesis
      by simp
  next
    case False
    with Cons.prems p obtain r v' log1 d1 where
      one: "handle_value fuel L s log v = (Inr (r, v'), log1)" and
      rest: "handle_items fuel L s log1 d = (Inr d1, log')" and
      d': "d' = (k, r) # d1"
      by (auto simp del: handle_value.simps split: prod.splits sum.splits)
    from Cons.IH [OF rest] False p d' one show ?thesis
      by (auto simp del: handle_value.simps)
  qed
qed

section \<open>Recomposition, step by step\<close>

lemmas rec_simps = recompose_base.simps recompose_obj.simps recompose_props.simps
  recompose_prop.simps handle_value.simps handle_list.simps handle_items.simps

declare rec_simps [simp del]

lemma dict_pop_absent: "\<not> dict_has d k \<Longrightarrow> dict_pop k d = d"
  by (induction d) (auto simp: dict_has_def dict_pop_def split: if_splits)

lemma recompose_prop_prim:
  "json_is_primitive v \<Longrightarrow>
     recompose_prop fuel L s log b k v = (Inr (set_item b k (py_of_json v), py_of_json v), log)"
  by (simp add: recompose_prop.simps)

lemma recompose_props_prims:
  "list_all (\<lambda>p. json_is_primitive (snd p)) items \<Longrightarrow>
     recompose_props fuel L s log b items = (Inr (copy_items b items, py_of_items items), log)"
proof (induction items arbitrary: b)
  case Nil
  then show ?case by (simp add: recompose_props.simps copy_items_def)
next
  case (Cons p items)
  obtain k v where p: "p = (k, v)" by (cases p)
  with Cons.prems have "json_is_primitive v" "list_all (\<lambda>p. json_is_primitive (snd p)) items" by simp_all
  with Cons.IH [of "set_item b k (py_of_json v)"] p show ?case
    by (simp add: recompose_props.simps recompose_prop_prim copy_items_def)
qed

lemma recompose_props_prims_then:
  assumes "list_all (\<lambda>p. json_is_primitive (snd p)) pre"
    and "recompose_props fuel L s log (copy_items b pre) items = (Inl e, l)"
  shows "recompose_props fuel L s log b (pre @ items) = (Inl e, l)"
  using assms
proof (induction pre arbitrary: b)
  case Nil
  then show ?case by (simp add: copy_items_def)
next
  case (Cons p pre)
  obtain k v where p: "p = (k, v)" by (cases p)
  with Cons.prems have "json_is_primitive v" "list_all (\<lambda>p. json_is_primitive (snd p)) pre" by simp_all
  moreover from Cons.prems p
  have "recompose_props fuel L s log (copy_items (set_item b k (py_of_json v)) pre) items = (Inl e, l)"
    by (simp add: copy_items_def)
  ultimately show ?case using Cons.IH [of "set_item b k (py_of_json v)"] p
    by (simp add: recompose_props.simps recompose_prop_prim)
qed

lemma recompose_prop_missing:
  assumes "read_transport s = Some t"
    and "get_object t h = None \<or> get_object t h = Some []"
    and "map_of marker ''referencedId'' = Some (JStr h)"
  shows "recompose_prop fuel L s log b k (JDict marker) =
           (Inl (SpeckleException (not_found_message h (name t))), log @ [h])"
  using assms by (auto simp: recompose_prop.simps dict_has_def)


text \<open>
  C6, as the code has it.  In a record, a property holds the reference marker
  \<^verbatim>\<open>{referencedId: h, ...}\<close> and every property before it holds a primitive, as the \<^verbatim>\<open>id\<close>
  that is written first does; the \<^verbatim>\<open>__closure\<close> of the record, if it has one, is a dictionary.
  When the read transport returns nothing (or an empty text) for \<open>h\<close>, recomposing the record
  raises, whatever the budget, a \<^verbatim>\<open>SpeckleException\<close> whose message names \<open>h\<close> and the name of
  the read transport.  \<^verbatim>\<open>get_object\<close> has been called once, with \<open>h\<close>: the failure is not
  retried.
\<close>

theorem missing_reference_raises:
  assumes "read_transport s = Some t"
    and "get_object t h = None \<or> get_object t h = Some []"
    and "map_of marker ''referencedId'' = Some (JStr h)"
    and "dict_pop ''__closure'' d = pre @ (k, JDict marker) # rest"
    and "list_all (\<lambda>p. json_is_primitive (snd p)) pre"
    and "\<forall>c. map_of d ''__closure'' = Some c \<longrightarrow> (\<exists>m. c = JDict m)"
  shows "recompose_base fuel L s log (JDict d) =
           (Inl (SpeckleException (not_found_message h (name t))), log @ [h]) \<and>
         has_sub (not_found_message h (name t)) h \<and>
         has_sub (not_found_message h (name t)) (name t)"
proof -
  from assms(4) have ne: "d \<noteq> []" by (auto simp: dict_pop_def)
  have props: "recompose_props fuel L s log b (dict_pop ''__closure'' d) =
      (Inl (SpeckleException (not_found_message h (name t))), log @ [h])" for b
  proof -
    have "recompose_props fuel L s log (copy_items b pre) ((k, JDict marker) # rest) =
        (Inl (SpeckleException (not_found_message h (name t))), log @ [h])"
      by (simp add: recompose_props.simps recompose_prop_missing [OF assms(1,2,3)])
    from recompose_props_prims_then [OF assms(5) this] assms(4) show ?thesis by simp
  qed
  have "recompose_base fuel L s log (JDict d) =
           (Inl (SpeckleException (not_found_message h (name t))), log @ [h])"
  proof (cases "map_of d ''__closure''")
    case None
    then have "dict_pop ''__closure'' d = d" by (simp add: dict_pop_absent dict_has_def)
    with props [of "(None, [])"] None ne show ?thesis
      by (simp add: recompose_base.simps recompose_obj.simps dict_has_def)
  next
    case (Some c)
    with assms(6) obtain m where "c = JDict m" by blast
    with props [of "(Some (length m), [])"] Some ne assms(1) show ?thesis
      by (simp add: recompose_base.simps recompose_obj.simps dict_has_def)
  qed
  with not_found_message_names [of h "name t"] show ?thesis by simp
qed

theorem missing_reference_raises_witness:
  "recompose_base 0 demo_lib (init [] (Some (memory_source []))) []
     (JDict [(''id'', JStr ''r''),
             (''@child'', JDict [(''referencedId'', JStr ''abc''), (''speckleType'', JStr ''reference'')]),
             (''__closure'', JDict [(''abc'', JInt 1)])]) =
     (Inl (SpeckleException (not_found_message ''abc'' ''memory'')), [''abc''])"
  using missing_reference_raises [where s = "init [] (Some (memory_source []))" and t = "memory_source []"
      and h = "''abc''"
      and marker = "[(''referencedId'', JStr ''abc''), (''speckleType'', JStr ''reference'')]"
      and d = "[(''id'', JStr ''r''),
             (''@child'', JDict [(''referencedId'', JStr ''abc''), (''speckleType'', JStr ''reference'')]),
             (''__closure'', JDict [(''abc'', JInt 1)])]"
      and pre = "[(''id'', JStr ''r'')]" and k = "''@child''" and rest = "[]"
      and fuel = 0 and L = demo_lib and log = "[]"]
  by (simp add: init_def memory_source_def dict_pop_def)


lemma copy_items_fst: "fst (copy_items b items) = fst b"
  unfolding copy_items_def by (induction items arbitrary: b) (auto simp: set_item_def)

lemma recompose_flat_record:
  assumes "rd \<noteq> []" and "\<not> dict_has rd ''__closure''"
    and "list_all (\<lambda>p. json_is_primitive (snd p)) rd"
  shows "recompose_base fuel L s log (JDict rd) =
           (Inr (PBase None (snd (copy_items (None, []) rd)), PDict (py_of_items rd)), log)"
proof -
  from recompose_props_prims [OF assms(3), of fuel L s log "(None, [])"]
  have "recompose_props fuel L s log (None, []) rd =
          (Inr ((None, snd (copy_items (None, []) rd)), py_of_items rd), log)"
    using copy_items_fst [of "(None, [])" rd] by (cases "copy_items (None, []) rd") simp
  with assms(1,2) show ?thesis
    by (simp add: recompose_base.simps recompose_obj.simps)
qed

lemma recompose_prop_flat:
  assumes "read_transport s = Some t" and "resolves_flat L t v"
  shows "\<exists>r log'. recompose_prop (Suc f) L s log b k v = (Inr (set_item b k r, py_of_json v), log')"
proof -
  from assms(2) obtain marker where v: "v = JDict marker" by (cases v) auto
  with assms(2) obtain h where h: "map_of marker ''referencedId'' = Some (JStr h)"
    by (auto split: option.splits json.splits)
  with assms(2) v obtain doc where doc: "get_object t h = Some doc" "doc \<noteq> []"
    by (auto split: option.splits)
  with assms(2) v h obtain rd where rd: "json_loads L doc = Some (JDict rd)" "rd \<noteq> []"
    "\<not> dict_has rd ''__closure''" "list_all (\<lambda>p. json_is_primitive (snd p)) rd"
    by (auto split: option.splits json.splits)
  from v h doc rd(1) assms(1) recompose_flat_record [OF rd(2,3,4), of f L s "log @ [h]"]
  have "recompose_prop (Suc f) L s log b k v =
      (Inr (set_item b k (PBase None (snd (copy_items (None, []) rd))), py_of_json v), log @ [h])"
    by (simp add: recompose_prop.simps dict_has_def)
  then show ?thesis by blast
qed

lemma recompose_props_flat:
  assumes "read_transport s = Some t"
    and "list_all (\<lambda>p. json_is_primitive (snd p) \<or> resolves_flat L t (snd p)) items"
  shows "\<exists>b' items' log'. recompose_props (Suc f) L s log b items = (Inr (b', items'), log') \<and>
           fst b' = fst b \<and> fst ` set (snd b') = fst ` set (snd b) \<union> fst ` set items"
  using assms(2)
proof (induction items arbitrary: b log)
  case Nil
  then show ?case by (simp add: recompose_props.simps)
next
  case (Cons p items)
  obtain k v where p: "p = (k, v)" by (cases p)
  from Cons.prems p have hd: "json_is_primitive v \<or> resolves_flat L t v"
    and tl: "list_all (\<lambda>p. json_is_primitive (snd p) \<or> resolves_flat L t (snd p)) items" by simp_all
  from hd obtain r v' log1 where one: "recompose_prop (Suc f) L s log b k v = (Inr (set_item b k r, v'), log1)"
    using recompose_prop_prim [of v "Suc f" L s log b k] recompose_prop_flat [OF assms(1), of L v f log b k]
    by blast
  from Cons.IH [OF tl, of log1 "set_item b k r"] obtain b' items' log' where
    rest: "recompose_props (Suc f) L s log1 (set_item b k r) items = (Inr (b', items'), log')"
    and b': "fst b' = fst (set_item b k r)"
      "fst ` set (snd b') = fst ` set (snd (set_item b k r)) \<union> fst ` set items"
    by blast
  from one rest p have "recompose_props (Suc f) L s log b (p # items) = (Inr (b', (k, v') # items'), log')"
    by (simp add: recompose_props.simps)
  moreover from b' p have "fst b' = fst b" "fst ` set (snd b') = fst ` set (snd b) \<union> fst ` set (p # items)"
    by (auto simp: set_item_def dict_set_keys)
  ultimately show ?case by blast
qed


text \<open>
  C7.  A record that carries \<^verbatim>\<open>__closure\<close> is not recomposed without a read transport:
  \<^verbatim>\<open>SpeckleException\<close> is raised before any property is looked at, so nothing is read.  With a
  read transport, an object that \<^verbatim>\<open>recompose_base\<close> returns for a record whose \<^verbatim>\<open>__closure\<close>
  is a dictionary has the number of its entries as hint, and no property \<^verbatim>\<open>__closure\<close>.  And
  an object is returned, with that hint, without the property \<^verbatim>\<open>__closure\<close> and with exactly
  the other properties of the record, when each of these is a primitive or a reference to a
  record of primitives that the read transport holds, and one reference may be followed.
\<close>

theorem closure_on_recompose:
  "(dict_has d ''__closure'' \<and> read_transport s = None \<longrightarrow>
      recompose_base fuel L s log (JDict d) = (Inl (SpeckleException no_transport_message), log)) \<and>
   (read_transport s' = Some t \<and> map_of e ''__closure'' = Some (JDict c) \<and>
    recompose_base fuel' L' s' log' (JDict e) = (Inr (b, e'), log'') \<longrightarrow>
      (\<exists>members. b = PBase (Some (length c)) members \<and> \<not> dict_has members ''__closure'')) \<and>
   (read_transport s'' = Some u \<and> map_of g ''__closure'' = Some (JDict c') \<and>
    list_all (\<lambda>p. json_is_primitive (snd p) \<or> resolves_flat M u (snd p)) (dict_pop ''__closure'' g) \<longrightarrow>
      (\<exists>members g' lg'. recompose_base (Suc n) M s'' lg (JDict g) =
           (Inr (PBase (Some (length c')) members, g'), lg') \<and>
         \<not> dict_has members ''__closure'' \<and>
         fst ` set members = fst ` set (dict_pop ''__closure'' g)))"
proof (intro conjI impI)
  assume a: "dict_has d ''__closure'' \<and> read_transport s = None"
  then have "d \<noteq> []" by (auto simp: dict_has_def)
  with a show "recompose_base fuel L s log (JDict d) = (Inl (SpeckleException no_transport_message), log)"
    by (simp add: recompose_base.simps recompose_obj.simps)
next
  assume a: "read_transport s' = Some t \<and> map_of e ''__closure'' = Some (JDict c) \<and>
    recompose_base fuel' L' s' log' (JDict e) = (Inr (b, e'), log'')"
  then have ne: "e \<noteq> []" and has: "dict_has e ''__closure''" by (auto simp: dict_has_def)
  from a ne has obtain hint members items' where
    props: "recompose_props fuel' L' s' log' (Some (length c), []) (dict_pop ''__closure'' e) =
              (Inr ((hint, members), items'), log'')" and
    b: "b = PBase hint members"
    by (auto simp: recompose_base.simps recompose_obj.simps split: prod.splits sum.splits)
  from recompose_props_keys [OF props] have "hint = Some (length c)"
    and "fst ` set members \<subseteq> fst ` set (dict_pop ''__closure'' e)" by auto
  with b show "\<exists>members. b = PBase (Some (length c)) members \<and> \<not> dict_has members ''__closure''"
    by (auto simp: dict_has_keys dict_pop_keys)
next
  assume a: "read_transport s'' = Some u \<and> map_of g ''__closure'' = Some (JDict c') \<and>
    list_all (\<lambda>p. json_is_primitive (snd p) \<or> resolves_flat M u (snd p)) (dict_pop ''__closure'' g)"
  then have ne: "g \<noteq> []" and has: "dict_has g ''__closure''" by (auto simp: dict_has_def)
  from a recompose_props_flat [of s'' u M "dict_pop ''__closure'' g" n lg "(Some (length c'), [])"]
  obtain b' items' lg' where
    props: "recompose_props (Suc n) M s'' lg (Some (length c'), []) (dict_pop ''__closure'' g) =
              (Inr (b', items'), lg')"
    and b': "fst b' = Some (length c')" "fst ` set (snd b') = fst ` set (dict_pop ''__closure'' g)"
    by auto
  from props a ne has have "recompose_base (Suc n) M s'' lg (JDict g) =
      (Inr (PBase (Some (length c')) (snd b'), PDict items'), lg')"
    using b'(1) by (cases b') (simp add: recompose_base.simps recompose_obj.simps)
  with b'(2) show "\<exists>members g' lg'. recompose_base (Suc n) M s'' lg (JDict g) =
           (Inr (PBase (Some (length c')) members, g'), lg') \<and>
         \<not> dict_has members ''__closure'' \<and>
         fst ` set members = fst ` set (dict_pop ''__closure'' g)"
    by (auto simp: dict_has_keys dict_pop_keys)
qed


theorem closure_on_recompose_witness:
  "recompose_base 1 decoding_lib (init [] None) [] (JDict root_doc) =
     (Inl (SpeckleException no_transport_message), []) \<and>
   recompose_base 1 decoding_lib (init [] (Some (memory_source [(''abc'', json_dumps child_doc)]))) []
       (JDict root_doc) =
     (Inr (PBase (Some 1) [(''id'', PStr ''r''), (''@child'', PBase None [(''id'', PStr ''abc''), (''x'', PInt 5)])],
           PDict [(''id'', PStr ''r''),
                  (''@child'', PDict [(''referencedId'', PStr ''abc''), (''speckleType'', PStr ''reference'')])]),
      [''abc''])"
  using closure_on_recompose [where d = root_doc and s = "init [] None" and fuel = 1 and L = decoding_lib
      and log = "[]"
      and s' = "init [] (Some (memory_source [(''abc'', json_dumps child_doc)]))"
      and t = "memory_source [(''abc'', json_dumps child_doc)]" and e = root_doc
      and c = "[(''abc'', JInt 1)]" and fuel' = 1 and L' = decoding_lib and log' = "[]"
      and b = "PBase (Some 1) [(''id'', PStr ''r''), (''@child'', PBase None [(''id'', PStr ''abc''), (''x'', PInt 5)])]"
      and e' = "PDict [(''id'', PStr ''r''),
                  (''@child'', PDict [(''referencedId'', PStr ''abc''), (''speckleType'', PStr ''reference'')])]"
      and log'' = "[''abc'']"
      and s'' = "init [] (Some (memory_source [(''abc'', json_dumps child_doc)]))"
      and u = "memory_source [(''abc'', json_dumps child_doc)]" and g = root_doc
      and c' = "[(''abc'', JInt 1)]" and M = decoding_lib and n = 0 and lg = "[]"]
  by (simp add: rec_simps init_def memory_source_def dict_has_def dict_pop_def set_item_def root_doc_def
      child_doc_def decoding_lib_def demo_lib_def demo_decoder_def quote_def escape_char_def)


lemma handle_items_prims_then:
  "list_all (\<lambda>p. json_is_primitive (snd p)) pre \<Longrightarrow>
     handle_items fuel L s log (pre @ items) =
       (case handle_items fuel L s log items of
          (Inl e, l) \<Rightarrow> (Inl e, l)
        | (Inr d', l) \<Rightarrow> (Inr (py_of_items pre @ d'), l))"
proof (induction pre)
  case Nil
  show ?case by (auto split: prod.splits sum.splits)
next
  case (Cons p pre)
  obtain k v where p: "p = (k, v)" by (cases p)
  with Cons show ?case
    by (auto simp: handle_items.simps split: prod.splits sum.splits)
qed

lemma handle_items_prims:
  "list_all (\<lambda>p. json_is_primitive (snd p)) items \<Longrightarrow>
     handle_items fuel L s log items = (Inr (py_of_items items), log)"
  using handle_items_prims_then [of items fuel L s log "[]"] by (simp add: handle_items.simps)

lemma handle_value_typed_record:
  assumes "dict_has r ''speckleType''" and "\<not> dict_has r ''__closure''"
    and "list_all (\<lambda>p. json_is_primitive (snd p)) r"
  shows "handle_value fuel L s log (JDict r) =
           (Inr (PBase None (snd (copy_items (None, []) r)), PDict (py_of_items r)), log)"
proof -
  from assms(1) have "r \<noteq> []" by (auto simp: dict_has_def)
  from recompose_flat_record [OF this assms(2,3)] assms(1) show ?thesis
    by (simp add: handle_value.simps)
qed

text \<open>
  C10.  \<^verbatim>\<open>traverse_value\<close> on a dictionary returns the dictionary it was given, which now
  holds, under the same keys, the primitive entries as they were and every other entry
  replaced by what \<^verbatim>\<open>traverse_value\<close> returned for it; a dictionary that held a \<^verbatim>\<open>Base\<close> object
  is not what it was.  In the same way \<^verbatim>\<open>handle_value\<close> on a dictionary without
  \<^verbatim>\<open>speckleType\<close> returns the dictionary it was given, after its loop has replaced every
  entry that is not primitive by what \<^verbatim>\<open>handle_value\<close> returned for it.  A dictionary of
  primitives and of one record with \<^verbatim>\<open>speckleType\<close> (and primitive values) comes back, for
  every budget, with the \<^verbatim>\<open>Base\<close> object of that record in the place of the record: it is
  not what it was.
\<close>

theorem dict_rewritten_in_place:
  "(traverse_value L s (PDict d) detach = (r, obj', s') \<longrightarrow>
      (\<exists>rd. r = JDict rd \<and> obj' = py_of_json r \<and>
         list_all2 (\<lambda>(k, v) (k', r). k' = k \<and>
            (if is_primitive v then r = json_of_prim v
             else (\<exists>s1 v' s2. traverse_value L s1 v False = (r, v', s2)))) d rd) \<and>
      ((\<exists>k hint members. (k, PBase hint members) \<in> set d) \<longrightarrow> obj' \<noteq> PDict d)) \<and>
   (\<not> dict_has e ''speckleType'' \<longrightarrow>
      handle_value fuel L' t log (JDict e) =
        (case handle_items fuel L' t log e of
           (Inl err, log') \<Rightarrow> (Inl err, log')
         | (Inr bd, log') \<Rightarrow> (Inr (PDict bd, PDict bd), log'))) \<and>
   (handle_items fuel L' t log e = (Inr bd, log') \<longrightarrow>
      list_all2 (\<lambda>(k, v) (k', r). k' = k \<and>
         (if json_is_primitive v then r = py_of_json v
          else (\<exists>log1 v' log2. handle_value fuel L' t log1 v = (Inr (r, v'), log2)))) e bd) \<and>
   (\<not> dict_has (pre @ (k, JDict rec) # rest) ''speckleType'' \<and>
    list_all (\<lambda>p. json_is_primitive (snd p)) pre \<and> list_all (\<lambda>p. json_is_primitive (snd p)) rest \<and>
    dict_has rec ''speckleType'' \<and> \<not> dict_has rec ''__closure'' \<and>
    list_all (\<lambda>p. json_is_primitive (snd p)) rec \<longrightarrow>
      handle_value fuel2 L2 t2 log2 (JDict (pre @ (k, JDict rec) # rest)) =
        (Inr (PDict (py_of_items pre @ (k, PBase None (snd (copy_items (None, []) rec))) # py_of_items rest),
              PDict (py_of_items pre @ (k, PBase None (snd (copy_items (None, []) rec))) # py_of_items rest)),
         log2) \<and>
      PDict (py_of_items pre @ (k, PBase None (snd (copy_items (None, []) rec))) # py_of_items rest) \<noteq>
        py_of_json (JDict (pre @ (k, JDict rec) # rest)))"
proof (intro conjI impI)
  assume a: "traverse_value L s (PDict d) detach = (r, obj', s')"
  then obtain rd d' where items: "traverse_items L s d = (rd, d', s')"
    and r: "r = JDict rd" and obj': "obj' = PDict d'"
    by (auto split: prod.splits)
  from traverse_items_in_place [OF items] r obj'
  show "\<exists>rd. r = JDict rd \<and> obj' = py_of_json r \<and>
         list_all2 (\<lambda>(k, v) (k', r). k' = k \<and>
            (if is_primitive v then r = json_of_prim v
             else (\<exists>s1 v' s2. traverse_value L s1 v False = (r, v', s2)))) d rd"
    by simp
  assume "\<exists>k hint members. (k, PBase hint members) \<in> set d"
  then obtain k hint members where mem: "(k, PBase hint members) \<in> set d" by blast
  from traverse_items_in_place [OF items] obj' have "obj' = PDict (py_of_items rd)" by simp
  with mem py_of_items_not_base [of k hint members rd] show "obj' \<noteq> PDict d" by auto
next
  assume "\<not> dict_has e ''speckleType''"
  then show "handle_value fuel L' t log (JDict e) =
        (case handle_items fuel L' t log e of
           (Inl err, log') \<Rightarrow> (Inl err, log')
         | (Inr bd, log') \<Rightarrow> (Inr (PDict bd, PDict bd), log'))"
    by (simp add: handle_value.simps)
next
  assume "handle_items fuel L' t log e = (Inr bd, log')"
  from handle_items_in_place [OF this]
  show "list_all2 (\<lambda>(k, v) (k', r). k' = k \<and>
         (if json_is_primitive v then r = py_of_json v
          else (\<exists>log1 v' log2. handle_value fuel L' t log1 v = (Inr (r, v'), log2)))) e bd" .
next
  assume a: "\<not> dict_has (pre @ (k, JDict rec) # rest) ''speckleType'' \<and>
    list_all (\<lambda>p. json_is_primitive (snd p)) pre \<and> list_all (\<lambda>p. json_is_primitive (snd p)) rest \<and>
    dict_has rec ''speckleType'' \<and> \<not> dict_has rec ''__closure'' \<and>
    list_all (\<lambda>p. json_is_primitive (snd p)) rec"
  then have typed: "handle_value fuel2 L2 t2 log2 (JDict rec) =
      (Inr (PBase None (snd (copy_items (None, []) rec)), PDict (py_of_items rec)), log2)"
    by (simp add: handle_value_typed_record)
  from a have "handle_items fuel2 L2 t2 log2 ((k, JDict rec) # rest) =
      (Inr ((k, PBase None (snd (copy_items (None, []) rec))) # py_of_items rest), log2)"
    by (simp add: handle_items.simps typed handle_items_prims)
  with a have "handle_items fuel2 L2 t2 log2 (pre @ (k, JDict rec) # rest) =
      (Inr (py_of_items pre @ (k, PBase None (snd (copy_items (None, []) rec))) # py_of_items rest), log2)"
    by (simp add: handle_items_prims_then)
  with a show "handle_value fuel2 L2 t2 log2 (JDict (pre @ (k, JDict rec) # rest)) =
        (Inr (PDict (py_of_items pre @ (k, PBase None (snd (copy_items (None, []) rec))) # py_of_items rest),
              PDict (py_of_items pre @ (k, PBase None (snd (copy_items (None, []) rec))) # py_of_items rest)),
         log2)"
    by (simp add: handle_value.simps)
  have notin: "(k, PBase None (snd (copy_items (None, []) rec))) \<notin> set (py_of_items (pre @ (k, JDict rec) # rest))"
    by (rule py_of_items_not_base)
  have isin: "(k, PBase None (snd (copy_items (None, []) rec))) \<in>
      set (py_of_items pre @ (k, PBase None (snd (copy_items (None, []) rec))) # py_of_items rest)"
    by simp
  show "PDict (py_of_items pre @ (k, PBase None (snd (copy_items (None, []) rec))) # py_of_items rest) \<noteq>
        py_of_json (JDict (pre @ (k, JDict rec) # rest))"
  proof
    assume "PDict (py_of_items pre @ (k, PBase None (snd (copy_items (None, []) rec))) # py_of_items rest) =
        py_of_json (JDict (pre @ (k, JDict rec) # rest))"
    then have "py_of_items pre @ (k, PBase None (snd (copy_items (None, []) rec))) # py_of_items rest =
        py_of_items (pre @ (k, JDict rec) # rest)" by simp
    with isin notin show False by metis
  qed
qed


theorem dict_rewritten_in_place_witness:
  "fst (snd (traverse_value demo_lib (init [] None) (PDict [(''k'', PBase None [(''x'', PInt 5)])]) False)) \<noteq>
     PDict [(''k'', PBase None [(''x'', PInt 5)])] \<and>
   handle_value 0 demo_lib (init [] None) [] (JDict [(''k'', JList [JInt 1])]) =
     (Inr (PDict [(''k'', PList [PInt 1])], PDict [(''k'', PList [PInt 1])]), []) \<and>
   handle_value 0 demo_lib (init [] None) []
       (JDict [(''n'', JInt 1), (''child'', JDict [(''speckleType'', JStr ''Base''), (''x'', JInt 5)])]) =
     (Inr (PDict [(''n'', PInt 1), (''child'', PBase None [(''speckleType'', PStr ''Base''), (''x'', PInt 5)])],
           PDict [(''n'', PInt 1), (''child'', PBase None [(''speckleType'', PStr ''Base''), (''x'', PInt 5)])]),
      []) \<and>
   PDict [(''n'', PInt 1), (''child'', PBase None [(''speckleType'', PStr ''Base''), (''x'', PInt 5)])] \<noteq>
     py_of_json (JDict [(''n'', JInt 1), (''child'', JDict [(''speckleType'', JStr ''Base''), (''x'', JInt 5)])])"
  using dict_rewritten_in_place [where L = demo_lib and s = "init [] None"
      and d = "[(''k'', PBase None [(''x'', PInt 5)])]" and detach = False
      and r = "fst (traverse_value demo_lib (init [] None) (PDict [(''k'', PBase None [(''x'', PInt 5)])]) False)"
      and obj' = "fst (snd (traverse_value demo_lib (init [] None) (PDict [(''k'', PBase None [(''x'', PInt 5)])]) False))"
      and s' = "snd (snd (traverse_value demo_lib (init [] None) (PDict [(''k'', PBase None [(''x'', PInt 5)])]) False))"
      and e = "[(''k'', JList [JInt 1])]" and fuel = 0 and L' = demo_lib and t = "init [] None"
      and log = "[]" and bd = "[(''k'', PList [PInt 1])]" and log' = "[]"
      and pre = "[(''n'', JInt 1)]" and k = "''child''"
      and rec = "[(''speckleType'', JStr ''Base''), (''x'', JInt 5)]" and rest = "[]"
      and ?fuel2.0 = 0 and ?L2.0 = demo_lib and ?t2.0 = "init [] None" and ?log2.0 = "[]"]
  by (simp add: rec_simps dict_has_def copy_items_def set_item_def)

section \<open>The traversal computes the function of the object\<close>

lemma apply_events_Nil [simp]: "apply_events off [] co = co"
  by (simp add: apply_events_def)

lemma apply_events_append: "apply_events off (E1 @ E2) co = apply_events off E2 (apply_events off E1 co)"
  by (simp add: apply_events_def)

lemma apply_events_deeper: "apply_events off (map deeper E) co = apply_events (off + 1) E co"
  by (induction E arbitrary: co) (auto simp: apply_events_def deeper_def add.commute add.left_commute)

lemma map_of_track:
  "map_of (track depth h ft p) t =
     (if t = p then Some (merge (h, depth) (case map_of ft p of None \<Rightarrow> [] | Some c \<Rightarrow> c))
      else map_of ft t)"
  by (auto simp: track_def merge_def dict_has_def map_of_dict_set Let_def split: option.splits)

lemma map_of_foldl_track:
  "distinct lin \<Longrightarrow>
   map_of (foldl (track depth h) ft lin) t =
     (if t \<in> set lin then Some (merge (h, depth) (case map_of ft t of None \<Rightarrow> [] | Some c \<Rightarrow> c))
      else map_of ft t)"
proof (induction lin arbitrary: ft)
  case Nil
  then show ?case by simp
next
  case (Cons p lin)
  then show ?case by (auto simp: map_of_track)
qed

lemma eff_refl: "eff L s s off [] []"
  by (simp add: eff_def)

lemma eff_trans:
  assumes "eff L s s1 off E1 S1" and "eff L s1 s2 off E2 S2"
  shows "eff L s s2 off (E1 @ E2) (S1 @ S2)"
proof -
  have sub: "uuid4_hex L ` {uuid_count s ..< uuid_count s1} \<subseteq> uuid4_hex L ` {uuid_count s ..< uuid_count s2}"
    "uuid4_hex L ` {uuid_count s1 ..< uuid_count s2} \<subseteq> uuid4_hex L ` {uuid_count s ..< uuid_count s2}"
    using assms unfolding eff_def by (auto intro!: image_mono)
  have other: "map_of (family_tree s2) t = map_of (family_tree s) t"
    if "t \<notin> set (lineage s)" "t \<notin> uuid4_hex L ` {uuid_count s ..< uuid_count s2}" for t
  proof -
    from that sub have "t \<notin> uuid4_hex L ` {uuid_count s ..< uuid_count s1}"
      "t \<notin> uuid4_hex L ` {uuid_count s1 ..< uuid_count s2}" by blast+
    with that assms show ?thesis unfolding eff_def by simp
  qed
  from assms other show ?thesis
    unfolding eff_def by (simp add: apply_events_append)
qed

lemma eff_wf:
  assumes "eff L s s' off E S" and "tokens_issued L s"
  shows "tokens_issued L s'"
  unfolding tokens_issued_def
proof (intro conjI allI impI)
  from assms show "distinct (lineage s')" by (simp add: eff_def tokens_issued_def)
next
  fix t
  assume t: "t \<in> set (lineage s') \<or> map_of (family_tree s') t \<noteq> None"
  from assms have le: "uuid_count s \<le> uuid_count s'" and lin: "lineage s' = lineage s"
    by (simp_all add: eff_def)
  show "\<exists>i<uuid_count s'. t = uuid4_hex L i"
  proof (cases "t \<in> set (lineage s)")
    case True
    with assms(2) obtain i where "i < uuid_count s" "t = uuid4_hex L i" by (auto simp: tokens_issued_def)
    with le show ?thesis by (intro exI [of _ i]) simp
  next
    case False
    show ?thesis
    proof (cases "t \<in> uuid4_hex L ` {uuid_count s ..< uuid_count s'}")
      case True
      then show ?thesis by auto
    next
      case new: False
      with False assms(1) have "map_of (family_tree s') t = map_of (family_tree s) t"
        by (simp add: eff_def)
      with t False lin have "map_of (family_tree s) t \<noteq> None" by simp
      with assms(2) obtain i where "i < uuid_count s" "t = uuid4_hex L i" by (auto simp: tokens_issued_def)
      with le show ?thesis by (intro exI [of _ i]) simp
    qed
  qed
qed

lemma detach_helper_eff:
  assumes "tokens_issued L s"
  shows "eff L s (snd (detach_helper s h)) (int (length (detach_lineage s)) - 1) [(h, 1)] []"
    and "detach_lineage (snd (detach_helper s h)) = detach_lineage s"
    and "fst (detach_helper s h) = reference h"
proof -
  from assms have d: "distinct (lineage s)" by (simp add: tokens_issued_def)
  show "eff L s (snd (detach_helper s h)) (int (length (detach_lineage s)) - 1) [(h, 1)] []"
    unfolding eff_def detach_helper_def
    by (simp add: map_of_foldl_track [OF d] apply_events_def)
  show "detach_lineage (snd (detach_helper s h)) = detach_lineage s"
    by (simp add: detach_helper_def)
  show "fst (detach_helper s h) = reference h"
    by (simp add: detach_helper_def reference_def)
qed

lemma map_of_shift: "map_of (shift k c) h = map_option (\<lambda>d. d - k) (map_of c h)"
  by (induction c) (auto simp: shift_def)

lemma shift_dict_set: "shift k (dict_set h d c) = dict_set h (d - k) (shift k c)"
  by (induction c) (auto simp: shift_def)

lemma shift_merge: "shift k (merge (h, d) c) = merge (h, d - k) (shift k c)"
  by (auto simp: merge_def map_of_shift shift_dict_set split: option.splits)

lemma shift_apply_events:
  "shift off (case apply_events off E co of None \<Rightarrow> [] | Some c \<Rightarrow> c) =
     foldl (\<lambda>c e. merge e c) (shift off (case co of None \<Rightarrow> [] | Some c \<Rightarrow> c)) E"
proof (induction E arbitrary: co)
  case Nil
  then show ?case by simp
next
  case (Cons e E)
  have "apply_events off (e # E) co =
          apply_events off E (Some (merge (fst e, snd e + off) (case co of None \<Rightarrow> [] | Some c \<Rightarrow> c)))"
    by (simp add: apply_events_def)
  with Cons [of "Some (merge (fst e, snd e + off) (case co of None \<Rightarrow> [] | Some c \<Rightarrow> c))"]
  show ?case by (simp add: shift_merge)
qed

lemma apply_events_None: "apply_events off E None = None \<longleftrightarrow> E = []"
proof (cases E rule: rev_cases)
  case Nil
  then show ?thesis by simp
next
  case (snoc E' e)
  then show ?thesis by (simp add: apply_events_def)
qed

lemma closure_of_apply_events:
  "apply_events off E None = Some c \<Longrightarrow> shift off c = closure_of E"
  using shift_apply_events [of off E None] by (simp add: closure_of_def shift_def)

lemma fresh_token:
  assumes "inj (uuid4_hex L)" and "tokens_issued L s"
  shows "uuid4_hex L (uuid_count s) \<notin> set (lineage s)"
    and "map_of (family_tree s) (uuid4_hex L (uuid_count s)) = None"
proof -
  have "\<not> (\<exists>i<uuid_count s. uuid4_hex L (uuid_count s) = uuid4_hex L i)"
    using assms(1) by (auto dest: injD)
  with assms(2) show "uuid4_hex L (uuid_count s) \<notin> set (lineage s)"
    and "map_of (family_tree s) (uuid4_hex L (uuid_count s)) = None"
    unfolding tokens_issued_def by blast+
qed

lemma enter_base_wf:
  assumes "inj (uuid4_hex L)" and "tokens_issued L s"
  shows "tokens_issued L (enter_base L s)"
  unfolding tokens_issued_def
proof (intro conjI allI impI)
  from assms fresh_token(1) [OF assms] show "distinct (lineage (enter_base L s))"
    by (simp add: enter_base_def tokens_issued_def Let_def)
next
  fix t
  assume "t \<in> set (lineage (enter_base L s)) \<or> map_of (family_tree (enter_base L s)) t \<noteq> None"
  then consider "t = uuid4_hex L (uuid_count s)"
    | "t \<in> set (lineage s) \<or> map_of (family_tree s) t \<noteq> None"
    by (auto simp: enter_base_def Let_def split: if_splits)
  then show "\<exists>i<uuid_count (enter_base L s). t = uuid4_hex L i"
  proof cases
    case 1
    then show ?thesis by (intro exI [of _ "uuid_count s"]) (simp add: enter_base_def Let_def)
  next
    case 2
    with assms(2) obtain i where "i < uuid_count s" "t = uuid4_hex L i" by (auto simp: tokens_issued_def)
    then show ?thesis by (intro exI [of _ i]) (simp add: enter_base_def Let_def)
  qed
qed

lemma leave_base_eff:
  assumes inj: "inj (uuid4_hex L)" and tokens_issued: "tokens_issued L s" and ne: "detach_lineage s \<noteq> []"
    and dl: "detach_lineage s3 = detach_lineage s"
    and eff: "eff L (enter_base L s) s3 off E S"
    and off: "off = int (length (detach_lineage s)) - 1"
    and leave: "leave_base L s3 ob = ((h, ob2), s7)"
  shows "h = hash_obj L (JDict ob)"
    and "ob2 = (if E = [] then dict_set ''id'' (JStr h) ob
               else dict_set ''__closure'' (closure_json (closure_of E)) (dict_set ''id'' (JStr h) ob))"
    and "detach_lineage s7 = butlast (detach_lineage s)"
    and "eff L s s7 off E (S @ (if last (detach_lineage s) then [(h, json_dumps (JDict ob2))] else []))"
proof -
  let ?tok = "uuid4_hex L (uuid_count s)"
  from ne have enter: "enter_base L s = s\<lparr>lineage := lineage s @ [?tok], uuid_count := Suc (uuid_count s)\<rparr>"
    by (simp add: enter_base_def Let_def)
  from eff enter have lin3: "lineage s3 = lineage s @ [?tok]"
    and rt3: "read_transport s3 = read_transport s"
    and wt3: "write_transports s3 = map (\<lambda>t. t @ S) (write_transports s)"
    and cnt3: "Suc (uuid_count s) \<le> uuid_count s3"
    by (simp_all add: eff_def)
  from eff enter fresh_token(2) [OF inj tokens_issued]
  have tok3: "map_of (family_tree s3) ?tok = apply_events off E None"
    by (simp add: eff_def)
  from eff enter have anc: "\<forall>t \<in> set (lineage s).
      map_of (family_tree s3) t = apply_events off E (map_of (family_tree s) t)"
    by (simp add: eff_def)
  have other: "map_of (family_tree s3) t = map_of (family_tree s) t"
    if "t \<notin> set (lineage s)" "t \<notin> uuid4_hex L ` {uuid_count s ..< uuid_count s3}" for t
  proof -
    from cnt3 have "uuid_count s \<in> {uuid_count s ..< uuid_count s3}" by simp
    with that(2) have "t \<noteq> ?tok" by blast
    moreover have "uuid4_hex L ` {Suc (uuid_count s) ..< uuid_count s3} \<subseteq>
        uuid4_hex L ` {uuid_count s ..< uuid_count s3}" by (auto intro!: image_mono)
    with that(2) have "t \<notin> uuid4_hex L ` {Suc (uuid_count s) ..< uuid_count s3}" by blast
    ultimately show ?thesis using eff enter that(1) by (simp add: eff_def)
  qed
  from ne off have len: "int (length (butlast (detach_lineage s))) = off"
    by (cases "detach_lineage s" rule: rev_cases) auto
  show h: "h = hash_obj L (JDict ob)"
    using leave by (auto simp: leave_base_def Let_def split: option.splits prod.splits)
  show ob2: "ob2 = (if E = [] then dict_set ''id'' (JStr h) ob
               else dict_set ''__closure'' (closure_json (closure_of E)) (dict_set ''id'' (JStr h) ob))"
  proof (cases "E = []")
    case True
    with tok3 have "map_of (family_tree s3) ?tok = None" by simp
    with leave lin3 True show ?thesis
      by (auto simp: leave_base_def Let_def split: prod.splits)
  next
    case False
    with tok3 obtain c where c: "map_of (family_tree s3) ?tok = Some c"
      and a: "apply_events off E None = Some c"
      using apply_events_None [of off E] by (cases "apply_events off E None") auto
    from closure_of_apply_events [OF a] have "shift off c = closure_of E" .
    with leave lin3 c False dl len show ?thesis
      by (auto simp: leave_base_def Let_def shift_def split: prod.splits)
  qed
  show "detach_lineage s7 = butlast (detach_lineage s)"
    using leave dl by (auto simp: leave_base_def Let_def split: option.splits prod.splits)
  have s7: "lineage s7 = butlast (lineage s3)" "read_transport s7 = read_transport s3"
    "family_tree s7 = family_tree s3" "uuid_count s7 = uuid_count s3"
    "write_transports s7 =
       (if last (detach_lineage s3)
        then map (save_object h (json_dumps (JDict ob2))) (write_transports s3)
        else write_transports s3)"
    using leave by (auto simp: leave_base_def Let_def split: option.splits prod.splits if_splits)
  show "eff L s s7 off E (S @ (if last (detach_lineage s) then [(h, json_dumps (JDict ob2))] else []))"
    unfolding eff_def
  proof (intro conjI)
    show "lineage s7 = lineage s" using s7 lin3 by simp
    show "read_transport s7 = read_transport s" using s7 rt3 by simp
    show "write_transports s7 =
        map (\<lambda>t. t @ S @ (if last (detach_lineage s) then [(h, json_dumps (JDict ob2))] else []))
          (write_transports s)"
      using s7 wt3 dl by (simp add: save_object_def)
    show "uuid_count s \<le> uuid_count s7" using s7 cnt3 by simp
    show "\<forall>t\<in>set (lineage s). map_of (family_tree s7) t =
        apply_events off E (map_of (family_tree s) t)"
      using s7 anc by simp
    show "\<forall>t. t \<notin> set (lineage s) \<longrightarrow> t \<notin> uuid4_hex L ` {uuid_count s..<uuid_count s7} \<longrightarrow>
        map_of (family_tree s7) t = map_of (family_tree s) t"
      using s7 other by simp
  qed
qed

lemma ser_base_id:
  assumes "ser_base L ms = (h, rec, ms', E, S)"
  shows "id_of (JDict rec) = h"
  using assms
  by (auto simp: Let_def map_of_dict_set split: prod.splits if_splits)

lemma enter_base_detach_lineage:
  "detach_lineage s \<noteq> [] \<Longrightarrow> detach_lineage (enter_base L s) = detach_lineage s"
  by (simp add: enter_base_def Let_def)

lemma wf_detach_lineage_update [simp]: "tokens_issued L (s\<lparr>detach_lineage := dl\<rparr>) = tokens_issued L s"
  by (simp add: tokens_issued_def)

lemma eff_detach_lineage_update [simp]:
  "eff L (s\<lparr>detach_lineage := dl\<rparr>) s' off E S = eff L s s' off E S"
  by (simp add: eff_def)

declare traverse_base.simps [simp del] traverse_props.simps [simp del] traverse_prop.simps [simp del]
  traverse_value.simps [simp del] traverse_list.simps [simp del] traverse_items.simps [simp del]
  ser_base.simps [simp del] ser_props.simps [simp del] ser_prop.simps [simp del]
  ser_value.simps [simp del] ser_list.simps [simp del] ser_items.simps [simp del]

lemma eff_deeper: "eff L s s' off (map deeper E) S = eff L s s' (off + 1) E S"
  by (simp add: eff_def apply_events_deeper)

text \<open>
  Where the identifiers \<^verbatim>\<open>uuid4()\<close> returns are different from one another, and in a state
  whose identifiers have been issued, each function of the traversal returns what its
  companion computes from the object, leaves the lineage of detach flags as it found it
  (\<^verbatim>\<open>traverse_base\<close> has popped its flag), and has the effect \<open>eff\<close> with the events and the
  saves of its companion; \<^verbatim>\<open>traverse_base\<close> adds the save of its own record when its flag is
  set, and \<^verbatim>\<open>traverse_prop\<close> the save of a detached child.
\<close>

lemma traverse_is_ser:
  "\<forall>s h rec ms' E S r ms2 s'. inj (uuid4_hex L) \<longrightarrow> tokens_issued L s \<longrightarrow> detach_lineage s \<noteq> [] \<longrightarrow>
     ser_base L ms = (h, rec, ms', E, S) \<longrightarrow> traverse_base L s ms = (r, ms2, s') \<longrightarrow>
       r = (h, rec) \<and> ms2 = ms' \<and> detach_lineage s' = butlast (detach_lineage s) \<and>
       eff L s s' (int (length (detach_lineage s)) - 1) E
         (S @ (if last (detach_lineage s) then [(h, json_dumps (JDict rec))] else []))"
  "\<forall>s ob' ps' E S ob2 ps2 s'. inj (uuid4_hex L) \<longrightarrow> tokens_issued L s \<longrightarrow>
     ser_props L ob ps = (ob', ps', E, S) \<longrightarrow> traverse_props L s ob ps = (ob2, ps2, s') \<longrightarrow>
       ob2 = ob' \<and> ps2 = ps' \<and> detach_lineage s' = detach_lineage s \<and>
       eff L s s' (int (length (detach_lineage s)) - 1) E S"
  "\<forall>s ob' v' E S ob2 v2 s'. inj (uuid4_hex L) \<longrightarrow> tokens_issued L s \<longrightarrow>
     ser_prop L ob k v = (ob', v', E, S) \<longrightarrow> traverse_prop L s ob k v = (ob2, v2, s') \<longrightarrow>
       ob2 = ob' \<and> v2 = v' \<and> detach_lineage s' = detach_lineage s \<and>
       eff L s s' (int (length (detach_lineage s)) - 1) E S"
  "\<forall>s detach j w' E S j2 w2 s'. inj (uuid4_hex L) \<longrightarrow> tokens_issued L s \<longrightarrow>
     ser_value L w = (j, w', E, S) \<longrightarrow> traverse_value L s w detach = (j2, w2, s') \<longrightarrow>
       j2 = j \<and> w2 = w' \<and> detach_lineage s' = detach_lineage s \<and>
       eff L s s' (int (length (detach_lineage s)) - 1) E
         (S @ (if detach \<and> is_base w then [(id_of j, json_dumps j)] else []))"
  "\<forall>s rs xs' E S rs2 xs2 s'. inj (uuid4_hex L) \<longrightarrow> tokens_issued L s \<longrightarrow>
     ser_list L xs = (rs, xs', E, S) \<longrightarrow> traverse_list L s xs = (rs2, xs2, s') \<longrightarrow>
       rs2 = rs \<and> xs2 = xs' \<and> detach_lineage s' = detach_lineage s \<and>
       eff L s s' (int (length (detach_lineage s)) - 1) E S"
  "\<forall>s rd d' E S rd2 d2 s'. inj (uuid4_hex L) \<longrightarrow> tokens_issued L s \<longrightarrow>
     ser_items L d = (rd, d', E, S) \<longrightarrow> traverse_items L s d = (rd2, d2, s') \<longrightarrow>
       rd2 = rd \<and> d2 = d' \<and> detach_lineage s' = detach_lineage s \<and>
       eff L s s' (int (length (detach_lineage s)) - 1) E S"
proof (induction L ms and L ob ps and L ob k v and L w and L xs and L d
    rule: ser_base_ser_props_ser_prop_ser_value_ser_list_ser_items.induct)
  case (1 L members)
  show ?case
  proof (intro allI impI)
    fix s h rec ms' E S r ms2 s'
    assume inj: "inj (uuid4_hex L)" and tokens_issued: "tokens_issued L s" and ne: "detach_lineage s \<noteq> []"
      and ser: "ser_base L members = (h, rec, ms', E, S)"
      and tr: "traverse_base L s members = (r, ms2, s')"
    obtain ob msp Ep Sp where sp: "ser_props L [(''id'', JStr [])] members = (ob, msp, Ep, Sp)"
      by (metis prod_cases4)
    obtain ob' msq s3 where tp: "traverse_props L (enter_base L s) [(''id'', JStr [])] members = (ob', msq, s3)"
      by (metis prod_cases3)
    from "1.IH" inj enter_base_wf [OF inj tokens_issued] sp tp
    have ih: "ob' = ob" "msq = msp" "detach_lineage s3 = detach_lineage (enter_base L s)"
      "eff L (enter_base L s) s3 (int (length (detach_lineage (enter_base L s))) - 1) Ep Sp"
      by blast+
    from tr tp ih obtain leave: "leave_base L s3 ob = (r, s')" and ms2: "ms2 = msp"
      by (auto simp: traverse_base.simps split: prod.splits)
    obtain hh ob2 where r: "r = (hh, ob2)" by (cases r)
    from ih enter_base_detach_lineage [OF ne]
    have dl3: "detach_lineage s3 = detach_lineage s"
      and eff3: "eff L (enter_base L s) s3 (int (length (detach_lineage s)) - 1) Ep Sp"
      by simp_all
    note lb = leave_base_eff [OF inj tokens_issued ne dl3 eff3 refl leave [unfolded r]]
    from ser sp lb(1,2) have "h = hh" "rec = ob2" "ms' = msp" "E = Ep" "S = Sp"
      by (auto simp: ser_base.simps Let_def)
    with lb(3,4) r ms2 show "r = (h, rec) \<and> ms2 = ms' \<and> detach_lineage s' = butlast (detach_lineage s) \<and>
       eff L s s' (int (length (detach_lineage s)) - 1) E
         (S @ (if last (detach_lineage s) then [(h, json_dumps (JDict rec))] else []))"
      by (cases "last (detach_lineage s)") (simp_all del: json_dumps.simps)
  qed
next
  case (2 L ob)
  show ?case
    by (auto simp: ser_props.simps traverse_props.simps eff_refl)
next
  case (3 L ob k v props)
  show ?case
  proof (intro allI impI)
    fix s ob' ps' E S ob2 ps2 s'
    assume inj: "inj (uuid4_hex L)" and tokens_issued: "tokens_issued L s"
      and ser: "ser_props L ob ((k, v) # props) = (ob', ps', E, S)"
      and tr: "traverse_props L s ob ((k, v) # props) = (ob2, ps2, s')"
    obtain ob1 v1 E1 S1 where sp: "ser_prop L ob k v = (ob1, v1, E1, S1)" by (metis prod_cases4)
    obtain obr psr Er Sr where sr: "ser_props L ob1 props = (obr, psr, Er, Sr)" by (metis prod_cases4)
    obtain ob1' v1' s1 where tp: "traverse_prop L s ob k v = (ob1', v1', s1)" by (metis prod_cases3)
    from "3.IH"(1) inj tokens_issued sp tp
    have one: "ob1' = ob1" "v1' = v1" "detach_lineage s1 = detach_lineage s"
      "eff L s s1 (int (length (detach_lineage s)) - 1) E1 S1" by blast+
    from eff_wf [OF one(4) tokens_issued] have wf1: "tokens_issued L s1" .
    obtain obr' psr' s2 where tr2: "traverse_props L s1 ob1 props = (obr', psr', s2)" by (metis prod_cases3)
    from "3.IH"(2) [OF sp [symmetric] refl refl] inj wf1 sr tr2
    have two: "obr' = obr" "psr' = psr" "detach_lineage s2 = detach_lineage s1"
      "eff L s1 s2 (int (length (detach_lineage s1)) - 1) Er Sr" by blast+
    from ser sp sr have a: "ob' = obr" "ps' = (k, v1) # psr" "E = E1 @ Er" "S = S1 @ Sr"
      by (simp_all add: ser_props.simps)
    from tr tp one tr2 two have b: "ob2 = obr" "ps2 = (k, v1) # psr" "s' = s2"
      by (simp_all add: traverse_props.simps)
    from two(4) one(3) have "eff L s1 s2 (int (length (detach_lineage s)) - 1) Er Sr" by simp
    from eff_trans [OF one(4) this] a b one(3) two(3)
    show "ob2 = ob' \<and> ps2 = ps' \<and> detach_lineage s' = detach_lineage s \<and>
       eff L s s' (int (length (detach_lineage s)) - 1) E S" by simp
  qed
next
  case (4 L ob k v)
  show ?case
  proof (intro allI impI)
    fix s ob' v' E S ob2 v2 s'
    assume inj: "inj (uuid4_hex L)" and tokens_issued: "tokens_issued L s"
      and ser: "ser_prop L ob k v = (ob', v', E, S)"
      and tr: "traverse_prop L s ob k v = (ob2, v2, s')"
    show "ob2 = ob' \<and> v2 = v' \<and> detach_lineage s' = detach_lineage s \<and>
       eff L s s' (int (length (detach_lineage s)) - 1) E S"
    proof (cases "falsy v \<or> startswith k ''__''")
      case True
      with ser tr show ?thesis
        by (auto simp: ser_prop.simps traverse_prop.simps eff_refl)
    next
      case skip: False
      show ?thesis
      proof (cases "is_primitive v")
        case True
        with skip ser tr show ?thesis
          by (auto simp: ser_prop.simps traverse_prop.simps eff_refl)
      next
        case prim: False
        obtain j w' Ev Sv where sv: "ser_value L v = (j, w', Ev, Sv)" by (metis prod_cases4)
        note ih = "4.IH" [OF skip prim, rule_format, OF inj tokens_issued sv]
        show ?thesis
        proof (cases "is_base v \<and> startswith k ''@''")
          case True
          obtain j2 w2 s1 where tv: "traverse_value L s v True = (j2, w2, s1)" by (metis prod_cases3)
          from ih [OF tv] True
          have one: "j2 = j" "w2 = w'" "detach_lineage s1 = detach_lineage s"
            "eff L s s1 (int (length (detach_lineage s)) - 1) Ev (Sv @ [(id_of j, json_dumps j)])"
            by simp_all
          from eff_wf [OF one(4) tokens_issued] have wf1: "tokens_issued L s1" .
          note dh = detach_helper_eff [OF wf1, of "id_of j"]
          from dh(1) one(3)
          have "eff L s1 (snd (detach_helper s1 (id_of j))) (int (length (detach_lineage s)) - 1) [(id_of j, 1)] []"
            by simp
          from eff_trans [OF one(4) this]
          have e: "eff L s (snd (detach_helper s1 (id_of j))) (int (length (detach_lineage s)) - 1)
              (Ev @ [(id_of j, 1)]) (Sv @ [(id_of j, json_dumps j)])" by simp
          from ser sv skip prim True
          have a: "ob' = dict_set k (reference (id_of j)) ob" "v' = w'" "E = Ev @ [(id_of j, 1)]"
            "S = Sv @ [(id_of j, json_dumps j)]"
            by (simp_all add: ser_prop.simps del: json_dumps.simps)
          from tr tv skip prim True one(1,2) dh(3)
          have b: "ob2 = dict_set k (reference (id_of j)) ob" "v2 = w'" "s' = snd (detach_helper s1 (id_of j))"
            by (auto simp: traverse_prop.simps split: prod.splits)
          from a b e dh(2) one(3) show ?thesis by simp
        next
          case False
          obtain j2 w2 s1 where tv: "traverse_value L s v False = (j2, w2, s1)" by (metis prod_cases3)
          from ih [OF tv]
          have one: "j2 = j" "w2 = w'" "detach_lineage s1 = detach_lineage s"
            "eff L s s1 (int (length (detach_lineage s)) - 1) Ev Sv"
            by simp_all
          from ser sv skip prim False
          have a: "ob' = dict_set k j ob" "v' = w'" "E = Ev" "S = Sv"
            by (auto simp: ser_prop.simps simp del: json_dumps.simps)
          from tr tv skip prim False one(1,2)
          have b: "ob2 = dict_set k j ob" "v2 = w'" "s' = s1"
            by (auto simp: traverse_prop.simps split: prod.splits if_splits)
          from a b one show ?thesis by simp
        qed
      qed
    qed
  qed
next
  case (5 L b)
  show ?case by (auto simp: ser_value.simps traverse_value.simps eff_refl)
next
  case (6 L i)
  show ?case by (auto simp: ser_value.simps traverse_value.simps eff_refl)
next
  case (7 L r)
  show ?case by (auto simp: ser_value.simps traverse_value.simps eff_refl)
next
  case (8 L t)
  show ?case by (auto simp: ser_value.simps traverse_value.simps eff_refl)
next
  case (9 L xs)
  show ?case
  proof (intro allI impI)
    fix s detach j w' E S j2 w2 s'
    assume inj: "inj (uuid4_hex L)" and tokens_issued: "tokens_issued L s"
      and ser: "ser_value L (PList xs) = (j, w', E, S)"
      and tr: "traverse_value L s (PList xs) detach = (j2, w2, s')"
    obtain rs xs' El Sl where sl: "ser_list L xs = (rs, xs', El, Sl)" by (metis prod_cases4)
    obtain rs2 xs2 s2 where tl: "traverse_list L s xs = (rs2, xs2, s2)" by (metis prod_cases3)
    from "9.IH" [rule_format, OF inj tokens_issued sl tl] ser tr sl tl
    show "j2 = j \<and> w2 = w' \<and> detach_lineage s' = detach_lineage s \<and>
       eff L s s' (int (length (detach_lineage s)) - 1) E
         (S @ (if detach \<and> is_base (PList xs) then [(id_of j, json_dumps j)] else []))"
      by (auto simp: ser_value.simps traverse_value.simps)
  qed
next
  case (10 L xs)
  show ?case
  proof (intro allI impI)
    fix s detach j w' E S j2 w2 s'
    assume inj: "inj (uuid4_hex L)" and tokens_issued: "tokens_issued L s"
      and ser: "ser_value L (PTuple xs) = (j, w', E, S)"
      and tr: "traverse_value L s (PTuple xs) detach = (j2, w2, s')"
    obtain rs xs' El Sl where sl: "ser_list L xs = (rs, xs', El, Sl)" by (metis prod_cases4)
    obtain rs2 xs2 s2 where tl: "traverse_list L s xs = (rs2, xs2, s2)" by (metis prod_cases3)
    from "10.IH" [rule_format, OF inj tokens_issued sl tl] ser tr sl tl
    show "j2 = j \<and> w2 = w' \<and> detach_lineage s' = detach_lineage s \<and>
       eff L s s' (int (length (detach_lineage s)) - 1) E
         (S @ (if detach \<and> is_base (PTuple xs) then [(id_of j, json_dumps j)] else []))"
      by (auto simp: ser_value.simps traverse_value.simps)
  qed
next
  case (11 L xs)
  show ?case
  proof (intro allI impI)
    fix s detach j w' E S j2 w2 s'
    assume inj: "inj (uuid4_hex L)" and tokens_issued: "tokens_issued L s"
      and ser: "ser_value L (PSet xs) = (j, w', E, S)"
      and tr: "traverse_value L s (PSet xs) detach = (j2, w2, s')"
    obtain rs xs' El Sl where sl: "ser_list L xs = (rs, xs', El, Sl)" by (metis prod_cases4)
    obtain rs2 xs2 s2 where tl: "traverse_list L s xs = (rs2, xs2, s2)" by (metis prod_cases3)
    from "11.IH" [rule_format, OF inj tokens_issued sl tl] ser tr sl tl
    show "j2 = j \<and> w2 = w' \<and> detach_lineage s' = detach_lineage s \<and>
       eff L s s' (int (length (detach_lineage s)) - 1) E
         (S @ (if detach \<and> is_base (PSet xs) then [(id_of j, json_dumps j)] else []))"
      by (auto simp: ser_value.simps traverse_value.simps)
  qed
next
  case (12 L d)
  show ?case
  proof (intro allI impI)
    fix s detach j w' E S j2 w2 s'
    assume inj: "inj (uuid4_hex L)" and tokens_issued: "tokens_issued L s"
      and ser: "ser_value L (PDict d) = (j, w', E, S)"
      and tr: "traverse_value L s (PDict d) detach = (j2, w2, s')"
    obtain rs xs' El Sl where sl: "ser_items L d = (rs, xs', El, Sl)" by (metis prod_cases4)
    obtain rs2 xs2 s2 where tl: "traverse_items L s d = (rs2, xs2, s2)" by (metis prod_cases3)
    from "12.IH" [rule_format, OF inj tokens_issued sl tl] ser tr sl tl
    show "j2 = j \<and> w2 = w' \<and> detach_lineage s' = detach_lineage s \<and>
       eff L s s' (int (length (detach_lineage s)) - 1) E
         (S @ (if detach \<and> is_base (PDict d) then [(id_of j, json_dumps j)] else []))"
      by (auto simp: ser_value.simps traverse_value.simps)
  qed
next
  case (13 L hint members)
  show ?case
  proof (intro allI impI)
    fix s detach j w' E S j2 w2 s'
    assume inj: "inj (uuid4_hex L)" and tokens_issued: "tokens_issued L s"
      and ser: "ser_value L (PBase hint members) = (j, w', E, S)"
      and tr: "traverse_value L s (PBase hint members) detach = (j2, w2, s')"
    let ?s0 = "s\<lparr>detach_lineage := detach_lineage s @ [detach]\<rparr>"
    obtain h rec ms' Eb Sb where sb: "ser_base L members = (h, rec, ms', Eb, Sb)" by (metis prod_cases5)
    obtain r ms2 s2 where tb: "traverse_base L ?s0 members = (r, ms2, s2)" by (metis prod_cases3)
    have wf0: "tokens_issued L ?s0" using tokens_issued by simp
    have ne: "detach_lineage ?s0 \<noteq> []" by simp
    from "13.IH" [rule_format, OF inj wf0 ne sb tb]
    have ih: "r = (h, rec)" "ms2 = ms'" "detach_lineage s2 = detach_lineage s"
      "eff L s s2 (int (length (detach_lineage s))) Eb
         (Sb @ (if detach then [(h, json_dumps (JDict rec))] else []))"
      by (simp_all del: json_dumps.simps)
    from ser sb have a: "j = JDict rec" "w' = PBase hint ms'" "E = map deeper Eb" "S = Sb"
      by (simp_all add: ser_value.simps)
    from tr tb ih(1,2) have b: "j2 = JDict rec" "w2 = PBase hint ms'" "s' = s2"
      by (simp_all add: traverse_value.simps)
    from ih(4) have "eff L s s2 (int (length (detach_lineage s)) - 1) (map deeper Eb)
         (Sb @ (if detach then [(h, json_dumps (JDict rec))] else []))"
      by (simp add: eff_deeper)
    with a b ih(3) ser_base_id [OF sb]
    show "j2 = j \<and> w2 = w' \<and> detach_lineage s' = detach_lineage s \<and>
       eff L s s' (int (length (detach_lineage s)) - 1) E
         (S @ (if detach \<and> is_base (PBase hint members) then [(id_of j, json_dumps j)] else []))"
      by (cases detach) (simp_all del: json_dumps.simps id_of.simps)
  qed
next
  case (14 L t d tx)
  show ?case by (auto simp: ser_value.simps traverse_value.simps eff_refl)
next
  case (15 L t tx)
  show ?case by (auto simp: ser_value.simps traverse_value.simps eff_refl)
next
  case (16 L)
  show ?case by (auto simp: ser_value.simps traverse_value.simps eff_refl)
next
  case (17 L)
  show ?case by (auto simp: ser_list.simps traverse_list.simps eff_refl)
next
  case (18 L x xs)
  show ?case
  proof (intro allI impI)
    fix s rs xs' E S rs2 xs2 s'
    assume inj: "inj (uuid4_hex L)" and tokens_issued: "tokens_issued L s"
      and ser: "ser_list L (x # xs) = (rs, xs', E, S)"
      and tr: "traverse_list L s (x # xs) = (rs2, xs2, s')"
    obtain j w' E1 S1 where sv: "ser_value L x = (j, w', E1, S1)" by (metis prod_cases4)
    obtain rsr xsr Er Sr where sr: "ser_list L xs = (rsr, xsr, Er, Sr)" by (metis prod_cases4)
    obtain j2 w2 s1 where tv: "traverse_value L s x False = (j2, w2, s1)" by (metis prod_cases3)
    from "18.IH"(1) [rule_format, OF inj tokens_issued sv tv]
    have one: "j2 = j" "w2 = w'" "detach_lineage s1 = detach_lineage s"
      "eff L s s1 (int (length (detach_lineage s)) - 1) E1 S1" by simp_all
    from eff_wf [OF one(4) tokens_issued] have wf1: "tokens_issued L s1" .
    obtain rsr' xsr' s2 where tr2: "traverse_list L s1 xs = (rsr', xsr', s2)" by (metis prod_cases3)
    from "18.IH"(2) [OF sv [symmetric] refl refl, rule_format, OF inj wf1 sr tr2]
    have two: "rsr' = rsr" "xsr' = xsr" "detach_lineage s2 = detach_lineage s1"
      "eff L s1 s2 (int (length (detach_lineage s1)) - 1) Er Sr" by simp_all
    from ser sv sr have a: "rs = j # rsr" "xs' = w' # xsr" "E = E1 @ Er" "S = S1 @ Sr"
      by (simp_all add: ser_list.simps)
    from tr tv one tr2 two have b: "rs2 = j # rsr" "xs2 = w' # xsr" "s' = s2"
      by (simp_all add: traverse_list.simps)
    from two(4) one(3) have "eff L s1 s2 (int (length (detach_lineage s)) - 1) Er Sr" by simp
    from eff_trans [OF one(4) this] a b one(3) two(3)
    show "rs2 = rs \<and> xs2 = xs' \<and> detach_lineage s' = detach_lineage s \<and>
       eff L s s' (int (length (detach_lineage s)) - 1) E S" by simp
  qed
next
  case (19 L)
  show ?case by (auto simp: ser_items.simps traverse_items.simps eff_refl)
next
  case (20 L k v d)
  show ?case
  proof (intro allI impI)
    fix s rd d' E S rd2 d2 s'
    assume inj: "inj (uuid4_hex L)" and tokens_issued: "tokens_issued L s"
      and ser: "ser_items L ((k, v) # d) = (rd, d', E, S)"
      and tr: "traverse_items L s ((k, v) # d) = (rd2, d2, s')"
    show "rd2 = rd \<and> d2 = d' \<and> detach_lineage s' = detach_lineage s \<and>
       eff L s s' (int (length (detach_lineage s)) - 1) E S"
    proof (cases "is_primitive v")
      case True
      obtain rdr dr Er Sr where sr: "ser_items L d = (rdr, dr, Er, Sr)" by (metis prod_cases4)
      obtain rdr' dr' s2 where tr2: "traverse_items L s d = (rdr', dr', s2)" by (metis prod_cases3)
      from "20.IH"(1) [OF True, rule_format, OF inj tokens_issued sr tr2] ser tr sr tr2 True
      show ?thesis by (auto simp: ser_items.simps traverse_items.simps)
    next
      case False
      obtain j w' E1 S1 where sv: "ser_value L v = (j, w', E1, S1)" by (metis prod_cases4)
      obtain rdr dr Er Sr where sr: "ser_items L d = (rdr, dr, Er, Sr)" by (metis prod_cases4)
      obtain j2 w2 s1 where tv: "traverse_value L s v False = (j2, w2, s1)" by (metis prod_cases3)
      from "20.IH"(2) [OF False, rule_format, OF inj tokens_issued sv tv]
      have one: "j2 = j" "w2 = w'" "detach_lineage s1 = detach_lineage s"
        "eff L s s1 (int (length (detach_lineage s)) - 1) E1 S1" by simp_all
      from eff_wf [OF one(4) tokens_issued] have wf1: "tokens_issued L s1" .
      obtain rdr' dr' s2 where tr2: "traverse_items L s1 d = (rdr', dr', s2)" by (metis prod_cases3)
      from "20.IH"(3) [OF False sv [symmetric] refl refl, rule_format, OF inj wf1 sr tr2]
      have two: "rdr' = rdr" "dr' = dr" "detach_lineage s2 = detach_lineage s1"
        "eff L s1 s2 (int (length (detach_lineage s1)) - 1) Er Sr" by simp_all
      from ser sv sr False have a: "rd = (k, j) # rdr" "d' = (k, py_of_json j) # dr" "E = E1 @ Er" "S = S1 @ Sr"
        by (simp_all add: ser_items.simps)
      from tr tv one tr2 two False have b: "rd2 = (k, j) # rdr" "d2 = (k, py_of_json j) # dr" "s' = s2"
        by (simp_all add: traverse_items.simps)
      from two(4) one(3) have "eff L s1 s2 (int (length (detach_lineage s)) - 1) Er Sr" by simp
      from eff_trans [OF one(4) this] a b one(3) two(3)
      show ?thesis by simp
    qed
  qed
qed

lemma ser_cong:
  "hash_obj L = hash_obj L2 \<longrightarrow> ser_base L ms = ser_base L2 ms"
  "hash_obj L = hash_obj L2 \<longrightarrow> ser_props L ob ps = ser_props L2 ob ps"
  "hash_obj L = hash_obj L2 \<longrightarrow> ser_prop L ob k v = ser_prop L2 ob k v"
  "hash_obj L = hash_obj L2 \<longrightarrow> ser_value L w = ser_value L2 w"
  "hash_obj L = hash_obj L2 \<longrightarrow> ser_list L xs = ser_list L2 xs"
  "hash_obj L = hash_obj L2 \<longrightarrow> ser_items L d = ser_items L2 d"
proof (induction L ms and L ob ps and L ob k v and L w and L xs and L d
    rule: ser_base_ser_props_ser_prop_ser_value_ser_list_ser_items.induct)
  case (1 L members)
  then show ?case by (simp add: ser_base.simps)
next
  case (2 L ob)
  then show ?case by (simp add: ser_props.simps)
next
  case (3 L ob k v props)
  show ?case
  proof
    assume h: "hash_obj L = hash_obj L2"
    obtain ob1 v1 E1 S1 where sp: "ser_prop L ob k v = (ob1, v1, E1, S1)" by (metis prod_cases4)
    from "3.IH"(1) h sp have sp2: "ser_prop L2 ob k v = (ob1, v1, E1, S1)" by simp
    from "3.IH"(2) [OF sp [symmetric] refl refl] h have "ser_props L ob1 props = ser_props L2 ob1 props" by simp
    with sp sp2 show "ser_props L ob ((k, v) # props) = ser_props L2 ob ((k, v) # props)"
      by (simp add: ser_props.simps)
  qed
next
  case (4 L ob k v)
  then show ?case by (simp add: ser_prop.simps)
next
  case (18 L x xs)
  show ?case
  proof
    assume h: "hash_obj L = hash_obj L2"
    obtain j w' E1 S1 where sv: "ser_value L x = (j, w', E1, S1)" by (metis prod_cases4)
    from "18.IH"(1) h sv have sv2: "ser_value L2 x = (j, w', E1, S1)" by simp
    from "18.IH"(2) [OF sv [symmetric] refl refl] h have "ser_list L xs = ser_list L2 xs" by simp
    with sv sv2 show "ser_list L (x # xs) = ser_list L2 (x # xs)"
      by (simp add: ser_list.simps)
  qed
next
  case (20 L k v d)
  show ?case
  proof
    assume h: "hash_obj L = hash_obj L2"
    show "ser_items L ((k, v) # d) = ser_items L2 ((k, v) # d)"
    proof (cases "is_primitive v")
      case True
      with "20.IH"(1) h show ?thesis by (simp add: ser_items.simps)
    next
      case False
      obtain j w' E1 S1 where sv: "ser_value L v = (j, w', E1, S1)" by (metis prod_cases4)
      from "20.IH"(2) [OF False] h sv have sv2: "ser_value L2 v = (j, w', E1, S1)" by simp
      from "20.IH"(3) [OF False sv [symmetric] refl refl] h have "ser_items L d = ser_items L2 d" by simp
      with sv sv2 False show ?thesis by (simp add: ser_items.simps)
    qed
  qed
qed (simp_all add: ser_value.simps ser_list.simps ser_items.simps)

lemma hash_obj_cong: "sha256_hexdigest L = sha256_hexdigest L2 \<Longrightarrow> hash_obj L = hash_obj L2"
  by (rule ext) (simp add: hash_obj_def)

lemma wf_reset: "tokens_issued L ((reset_writer s)\<lparr>detach_lineage := dl\<rparr>)"
  by (simp add: tokens_issued_def reset_writer_def)

lemma write_json_obj_ser:
  assumes inj: "inj (uuid4_hex L)" and ser: "ser_base L ms = (h, rec, ms', E, S)"
  shows "\<exists>s'. write_json_obj L s ms = ((h, rec), ms', s') \<and>
           write_transports s' = map (\<lambda>t. t @ S @ [(h, json_dumps (JDict rec))]) (write_transports s) \<and>
           read_transport s' = read_transport s \<and> detach_lineage s' = [] \<and> lineage s' = []"
proof -
  let ?s0 = "(reset_writer s)\<lparr>detach_lineage := [True]\<rparr>"
  obtain r ms2 s' where tb: "traverse_base L ?s0 ms = (r, ms2, s')" by (metis prod_cases3)
  have ne: "detach_lineage ?s0 \<noteq> []" by simp
  from traverse_is_ser(1) [rule_format, OF inj wf_reset ne ser tb]
  have "r = (h, rec)" "ms2 = ms'" "detach_lineage s' = []"
    "eff L ?s0 s' 0 E (S @ [(h, json_dumps (JDict rec))])"
    by (simp_all del: json_dumps.simps)
  with tb show ?thesis
    by (simp add: write_json_obj_def eff_def reset_writer_def del: json_dumps.simps)
qed

section \<open>The events and the saves are those of the detached objects\<close>


lemma deeper_event_of:
  "map deeper (map (event_of L) xs) = map (event_of L) (map (\<lambda>(ob, depth). (ob, Suc depth)) xs)"
  by (induction xs) (auto simp: deeper_def event_of_def)

lemma save_of_deeper:
  "map (save_of L) (map (\<lambda>(ob, depth). (ob, Suc depth)) xs) = map (save_of L) xs"
  by (induction xs) (auto simp: save_of_def simp del: json_dumps.simps)




lemma hex_digit_inj: "n < 10 \<Longrightarrow> m < 10 \<Longrightarrow> hex_digit n = hex_digit m \<Longrightarrow> n = m"
proof -
  assume n: "n < 10" and m: "m < 10" and eq: "hex_digit n = hex_digit m"
  have d: "distinct ''0123456789abcdef''" by simp
  from n m have "n mod 16 = n" "m mod 16 = m" by simp_all
  with eq have "''0123456789abcdef'' ! n = ''0123456789abcdef'' ! m" by (simp add: hex_digit_def)
  with d n m show "n = m" by (simp add: nth_eq_iff_index_eq)
qed

lemma dec_nat_not_Nil: "dec_nat n \<noteq> []"
  by (subst dec_nat.simps) simp

lemma dec_nat_eq: "dec_nat a = dec_nat b \<Longrightarrow> a = b"
proof (induction a arbitrary: b rule: dec_nat.induct)
  case (1 n)
  show ?case
  proof (cases "n < 10")
    case True
    show ?thesis
    proof (cases "b < 10")
      case b: True
      from "1.prems" True b have "hex_digit n = hex_digit b"
        by (simp add: dec_nat.simps [of n] dec_nat.simps [of b])
      with True b show ?thesis by (rule hex_digit_inj)
    next
      case False
      with "1.prems" True have "[hex_digit n] = dec_nat (b div 10) @ [hex_digit (b mod 10)]"
        by (simp add: dec_nat.simps [of n] dec_nat.simps [of b])
      with dec_nat_not_Nil [of "b div 10"] show ?thesis by simp
    qed
  next
    case n: False
    show ?thesis
    proof (cases "b < 10")
      case True
      with "1.prems" n have "dec_nat (n div 10) @ [hex_digit (n mod 10)] = [hex_digit b]"
        by (simp add: dec_nat.simps [of n] dec_nat.simps [of b])
      with dec_nat_not_Nil [of "n div 10"] show ?thesis by simp
    next
      case False
      with "1.prems" n
      have "dec_nat (n div 10) @ [hex_digit (n mod 10)] = dec_nat (b div 10) @ [hex_digit (b mod 10)]"
        by (simp add: dec_nat.simps [of n] dec_nat.simps [of b])
      then have a: "dec_nat (n div 10) = dec_nat (b div 10)"
        and c: "hex_digit (n mod 10) = hex_digit (b mod 10)" by simp_all
      from "1.IH" [OF n a] have d: "n div 10 = b div 10" .
      from c have m: "n mod 10 = b mod 10" by (rule hex_digit_inj [rotated 2]) simp_all
      from d m show ?thesis by (metis div_mult_mod_eq)
    qed
  qed
qed

lemma inj_demo_lib: "inj (uuid4_hex demo_lib)"
  by (auto simp: demo_lib_def inj_def dest: dec_nat_eq)









lemma ser_plain:
  "plain_members ms \<longrightarrow> fst (snd (snd (ser_base L ms))) = ms"
  "plain_members ps \<longrightarrow> fst (snd (ser_props L ob ps)) = ps"
  "plain v \<longrightarrow> fst (snd (ser_prop L ob k v)) = v"
  "plain w \<longrightarrow> fst (snd (ser_value L w)) = w"
  "plain_list xs \<longrightarrow> fst (snd (ser_list L xs)) = xs"
  "list_all (\<lambda>p. is_primitive (snd p)) d \<longrightarrow> fst (snd (ser_items L d)) = d"
proof (induction L ms and L ob ps and L ob k v and L w and L xs and L d
    rule: ser_base_ser_props_ser_prop_ser_value_ser_list_ser_items.induct)
  case (1 L members)
  then show ?case by (auto simp: ser_base.simps Let_def split: prod.splits)
next
  case (2 L ob)
  then show ?case by (simp add: ser_props.simps)
next
  case (3 L ob k v props)
  show ?case
  proof
    assume pl: "plain_members ((k, v) # props)"
    obtain ob1 v1 E1 S1 where sp: "ser_prop L ob k v = (ob1, v1, E1, S1)" by (metis prod_cases4)
    obtain obr psr Er Sr where sr: "ser_props L ob1 props = (obr, psr, Er, Sr)" by (metis prod_cases4)
    from "3.IH"(1) pl sp have v1: "v1 = v" by simp
    from "3.IH"(2) [OF sp [symmetric] refl refl] pl sr have "psr = props" by simp
    with v1 sp sr show "fst (snd (ser_props L ob ((k, v) # props))) = (k, v) # props"
      by (simp add: ser_props.simps)
  qed
next
  case (4 L ob k v)
  then show ?case by (auto simp: ser_prop.simps split: prod.splits)
next
  case (18 L x xs)
  show ?case
  proof
    assume pl: "plain_list (x # xs)"
    obtain j w' E1 S1 where sv: "ser_value L x = (j, w', E1, S1)" by (metis prod_cases4)
    obtain rr xr Er Sr where sr: "ser_list L xs = (rr, xr, Er, Sr)" by (metis prod_cases4)
    from "18.IH"(1) pl sv have w: "w' = x" by simp
    from "18.IH"(2) [OF sv [symmetric] refl refl] pl sr have "xr = xs" by simp
    with w sv sr show "fst (snd (ser_list L (x # xs))) = x # xs" by (simp add: ser_list.simps)
  qed
next
  case (20 L k v d)
  show ?case
  proof
    assume pl: "list_all (\<lambda>p. is_primitive (snd p)) ((k, v) # d)"
    then have pv: "is_primitive v" by simp
    obtain rr dr Er Sr where sr: "ser_items L d = (rr, dr, Er, Sr)" by (metis prod_cases4)
    from "20.IH"(1) [OF pv] pl sr have "dr = d" by simp
    with pv sr show "fst (snd (ser_items L ((k, v) # d))) = (k, v) # d" by (simp add: ser_items.simps)
  qed
qed (auto simp: ser_value.simps ser_list.simps ser_items.simps split: prod.splits)

section \<open>What the write transports receive\<close>

lemmas traverse_simps = traverse_base.simps traverse_props.simps traverse_prop.simps
  traverse_value.simps traverse_list.simps traverse_items.simps

lemma write_json_obj_record:
  assumes "inj (uuid4_hex L)"
  shows "fst (write_json_obj L s ms) = (fst (ser_base L ms), fst (snd (ser_base L ms)))"
proof -
  obtain h rec ms' E S where ser: "ser_base L ms = (h, rec, ms', E, S)" by (metis prod_cases5)
  from write_json_obj_ser [OF assms ser, of s] ser show ?thesis by auto
qed

lemma write_json_save:
  assumes "inj (uuid4_hex L)"
  shows "fst (write_json L s ob) = save_of L (ob, d)"
  using write_json_obj_record [OF assms, of s ob]
  by (auto simp: write_json_def save_of_def split: prod.splits simp del: json_dumps.simps)





section \<open>The depths of a closure\<close>




section \<open>Two decompositions\<close>

lemma inj_other_lib: "inj (uuid4_hex other_lib)"
  by (auto simp: other_lib_def inj_def dest: dec_nat_eq)

text \<open>
  C9, as the code has it.  Where the identifiers \<^verbatim>\<open>uuid4()\<close> returns are different from one
  another, the hash and the encoded record \<^verbatim>\<open>write_json\<close> returns are the same for every
  choice of these identifiers and every serializer, given the same object and the same digest.
  When no dictionary in the object holds a value that is not primitive, the first call leaves
  the object as it was, and a second call on it, by the serializer as the first call left it,
  returns the same hash and the same encoded record.
\<close>

theorem decomposition_ignores_identifiers:
  assumes "inj (uuid4_hex L)" and "inj (uuid4_hex L')"
    and "sha256_hexdigest L' = sha256_hexdigest L"
  shows "fst (write_json L' s' members) = fst (write_json L s members) \<and>
         (plain_members members \<longrightarrow>
            fst (snd (write_json L s members)) = members \<and>
            fst (write_json L (snd (snd (write_json L s members))) (fst (snd (write_json L s members)))) =
              fst (write_json L s members))"
proof -
  from assms(3) have "hash_obj L' = hash_obj L" by (rule hash_obj_cong)
  then have c: "ser_base L' members = ser_base L members" by (rule ser_cong(1) [rule_format])
  have a: "fst (write_json L' s' members) = fst (write_json L s members)"
    using write_json_save [OF assms(1), of s members 0] write_json_save [OF assms(2), of s' members 0] c
    by (simp add: save_of_def del: json_dumps.simps)
  have b: "fst (snd (write_json L s members)) = members" if "plain_members members"
  proof -
    obtain h rec ms' E S where ser: "ser_base L members = (h, rec, ms', E, S)" by (metis prod_cases5)
    from write_json_obj_ser [OF assms(1) ser, of s] obtain s1 where
      "write_json_obj L s members = ((h, rec), ms', s1)" by blast
    then have "fst (snd (write_json L s members)) = ms'" by (simp add: write_json_def)
    with ser_plain(1) [of members L] that ser show ?thesis by simp
  qed
  have d: "fst (write_json L s2 members) = fst (write_json L s members)" for s2
    using write_json_save [OF assms(1), of s members 0] write_json_save [OF assms(1), of s2 members 0]
    by simp
  from a b d show ?thesis by simp
qed

theorem decomposition_ignores_identifiers_witness:
  "uuid4_hex other_lib 0 \<noteq> uuid4_hex demo_lib 0 \<and>
   fst (write_json other_lib (init [[]] (Some empty_source)) shared_child) =
     fst (write_json demo_lib (init [] None) shared_child) \<and>
   fst (snd (write_json demo_lib (init [] None) shared_child)) = shared_child \<and>
   fst (write_json demo_lib (snd (snd (write_json demo_lib (init [] None) shared_child)))
          (fst (snd (write_json demo_lib (init [] None) shared_child)))) =
     fst (write_json demo_lib (init [] None) shared_child)"
proof -
  have pl: "plain_members shared_child" by (simp add: shared_child_def)
  have sh: "sha256_hexdigest other_lib = sha256_hexdigest demo_lib" by (simp add: other_lib_def)
  have ne: "uuid4_hex other_lib 0 \<noteq> uuid4_hex demo_lib 0"
    by (simp add: other_lib_def demo_lib_def dec_nat.simps hex_digit_def)
  from decomposition_ignores_identifiers [OF inj_demo_lib inj_other_lib sh,
      of "init [[]] (Some empty_source)" shared_child "init [] None"] pl ne
  show ?thesis by blast
qed

text \<open>
  C9, as the claim states it, fails for an object that the first call rewrites.  In
  \<^verbatim>\<open>{d: {k: {"@c": {x: 5}}}}\<close> the first call replaces the object in the dictionary \<^verbatim>\<open>d\<close> by its
  record, and returns a record of the root with a \<^verbatim>\<open>__closure\<close>.  The second call, on the object
  as the first call left it and with nothing done in between, finds a dictionary where the
  object was, detaches nothing, and returns a record of the root without \<^verbatim>\<open>__closure\<close>: another
  encoded record.
\<close>

theorem second_run_differs_text:
  "snd (fst (write_json demo_lib
        (snd (snd (write_json demo_lib (init [] None) dict_of_objects)))
        (fst (snd (write_json demo_lib (init [] None) dict_of_objects))))) \<noteq>
   snd (fst (write_json demo_lib (init [] None) dict_of_objects))"
  by (simp add: dict_of_objects_def traverse_defs traverse_simps demo_lib_def dec_nat.simps hex_digit_def
      hash_obj_def quote_def escape_char_def dec_int_def)

end
